theory Spec2Isabelle
  imports Main
begin

section \<open>Strings of the host language\<close>

text \<open>
  A string of the program is a \<^typ>\<open>string\<close>: a list of 8-bit characters, read as the
  code units \<open>0x00\<close> to \<open>0xFF\<close>. The operations below are the string methods
  \<open>flag.ts\<close> calls.
\<close>

definition dq :: string where
  "dq = [CHR 0x22]"

definition sq :: string where
  "sq = [CHR 0x27]"

definition startsWith :: "string \<Rightarrow> string \<Rightarrow> bool" where
  "startsWith s p = (take (length p) s = p)"

fun indexOf :: "string \<Rightarrow> char \<Rightarrow> nat option" where
  "indexOf [] c = None"
| "indexOf (x # xs) c =
     (if x = c then Some 0 else (case indexOf xs c of None \<Rightarrow> None | Some i \<Rightarrow> Some (Suc i)))"

definition toLowerChar :: "char \<Rightarrow> char" where
  "toLowerChar c =
     (let n = (of_char c :: nat)
      in if (65 \<le> n \<and> n \<le> 90) \<or> (192 \<le> n \<and> n \<le> 222 \<and> n \<noteq> 215)
         then char_of (n + 32) else c)"

definition toLowerCase :: "string \<Rightarrow> string" where
  "toLowerCase s = map toLowerChar s"

fun join :: "string \<Rightarrow> string list \<Rightarrow> string" where
  "join sep [] = []"
| "join sep [x] = x"
| "join sep (x # y # ys) = x @ sep @ join sep (y # ys)"

section \<open>Numbers\<close>

text \<open>
  A number of the program is a double. The model keeps the exact decimal value in
  the form \<open>Number::toString\<close> works with: a sign, the significant decimal digits
  \<open>d\<^sub>1 \<dots> d\<^sub>k\<close> (no leading and no trailing zero) and the position \<open>n\<close> of the decimal
  point, for the value \<open>0.d\<^sub>1\<dots>d\<^sub>k \<times> 10\<^sup>n\<close>. Zero has no digits. Rounding to 53 bits,
  overflow to an infinity and the sign of zero are not modelled; whether a string
  parses to \<open>NaN\<close> does not depend on them.
\<close>

datatype number = NaN | Infinity bool | Finite bool "nat list" int

definition isNaN :: "number \<Rightarrow> bool" where
  "isNaN x = (x = NaN)"

definition isStrWhiteSpaceChar :: "char \<Rightarrow> bool" where
  "isStrWhiteSpaceChar c = ((of_char c :: nat) \<in> {9, 10, 11, 12, 13, 32, 160})"

definition isDecimalDigit :: "char \<Rightarrow> bool" where
  "isDecimalDigit c = (48 \<le> (of_char c :: nat) \<and> (of_char c :: nat) \<le> 57)"

definition digitValue :: "char \<Rightarrow> nat" where
  "digitValue c = (of_char c :: nat) - 48"

definition digitsToNat :: "string \<Rightarrow> nat" where
  "digitsToNat ds = foldl (\<lambda>acc c. 10 * acc + digitValue c) 0 ds"

text \<open>The sign of a literal: whether it is negative, and the rest of the string.\<close>

fun splitSign :: "string \<Rightarrow> bool \<times> string" where
  "splitSign [] = (False, [])"
| "splitSign (c # cs) =
     (if c = CHR ''-'' then (True, cs) else if c = CHR ''+'' then (False, cs) else (False, c # cs))"

text \<open>
  The value of the \<open>ExponentPart\<close> the string starts with; 0 when it starts with
  none (an \<open>e\<close> with no digits after it is not part of the literal).
\<close>

fun exponentPart :: "string \<Rightarrow> int" where
  "exponentPart [] = 0"
| "exponentPart (c # cs) =
     (if c = CHR ''e'' \<or> c = CHR ''E'' then
        (let (neg, r) = splitSign cs; ds = takeWhile isDecimalDigit r
         in if ds = [] then 0
            else if neg then - int (digitsToNat ds) else int (digitsToNat ds))
      else 0)"

definition makeFinite :: "bool \<Rightarrow> nat list \<Rightarrow> int \<Rightarrow> number" where
  "makeFinite neg ds n =
     (let lead = takeWhile (\<lambda>d. d = 0) ds;
          sig = rev (dropWhile (\<lambda>d. d = 0) (rev (dropWhile (\<lambda>d. d = 0) ds)))
      in if sig = [] then Finite False [] 0 else Finite neg sig (n - int (length lead)))"

text \<open>
  \<open>parseFloat\<close>: skip leading white space, then take the longest prefix that is a
  \<open>StrDecimalLiteral\<close> (a sign, then \<open>Infinity\<close> or digits with an optional
  fraction and exponent); \<open>NaN\<close> when there is none. What follows the prefix is
  ignored.
\<close>

definition parseFloat :: "string \<Rightarrow> number" where
  "parseFloat s =
     (let (neg, u) = splitSign (dropWhile isStrWhiteSpaceChar s)
      in if startsWith u ''Infinity'' then Infinity neg
         else
           (let ip = takeWhile isDecimalDigit u;
                r1 = dropWhile isDecimalDigit u;
                (fp, r2) = (case r1 of
                              [] \<Rightarrow> ([], r1)
                            | c # r \<Rightarrow> if c = CHR ''.''
                                       then (takeWhile isDecimalDigit r, dropWhile isDecimalDigit r)
                                       else ([], r1))
            in if ip = [] \<and> fp = [] then NaN
               else makeFinite neg (map digitValue (ip @ fp)) (int (length ip) + exponentPart r2)))"

fun natToString :: "nat \<Rightarrow> string" where
  "natToString n =
     (if n < 10 then [char_of (48 + n)]
      else natToString (n div 10) @ [char_of (48 + n mod 10)])"

definition digitChars :: "nat list \<Rightarrow> string" where
  "digitChars ds = map (\<lambda>d. char_of (48 + d)) ds"

text \<open>\<open>String(x)\<close> for a number, as \<open>Number::toString\<close> with radix 10 prints it.\<close>

fun numberToString :: "number \<Rightarrow> string" where
  "numberToString NaN = ''NaN''"
| "numberToString (Infinity neg) = (if neg then ''-Infinity'' else ''Infinity'')"
| "numberToString (Finite neg ds n) =
     (if ds = [] then ''0''
      else
        (if neg then ''-'' else '''') @
        (let k = int (length ds)
         in if - 5 \<le> n \<and> n \<le> 21 then
              (if n \<ge> k then digitChars ds @ replicate (nat (n - k)) CHR ''0''
               else if n > 0 then digitChars (take (nat n) ds) @ ''.'' @ digitChars (drop (nat n) ds)
               else ''0.'' @ replicate (nat (- n)) CHR ''0'' @ digitChars ds)
            else
              (let e = n - 1;
                   ex = (if e < 0 then ''-'' else ''+'') @ natToString (nat \<bar>e\<bar>)
               in if k = 1 then digitChars ds @ ''e'' @ ex
                  else digitChars (take 1 ds) @ ''.'' @ digitChars (drop 1 ds) @ ''e'' @ ex)))"

section \<open>Errors\<close>

text \<open>
  The exceptions of \<open>flag.ts\<close> as values. A \<open>FlagParseError\<close> carries its rendered
  message, the flag name and the offending value (both optional in the source).
  \<open>TypeError\<close> is the runtime's own error, raised by a method call on \<open>undefined\<close>.
\<close>

datatype FlagError =
    FlagDefinitionError string
  | FlagParseError string "string option" "string option"
  | HelpRequestError
  | TypeError

fun errorMessage :: "FlagError \<Rightarrow> string" where
  "errorMessage (FlagDefinitionError m) = m"
| "errorMessage (FlagParseError m fn ov) = m"
| "errorMessage HelpRequestError = ''Help requested by user''"
| "errorMessage TypeError = ''Cannot read properties of undefined''"

text \<open>The constructor of \<open>FlagParseError\<close>: an empty flag name is falsy and adds no prefix.\<close>

definition newFlagParseError :: "string \<Rightarrow> string option \<Rightarrow> string option \<Rightarrow> FlagError" where
  "newFlagParseError msg fn ov =
     (let baseMessage = (case fn of
                           None \<Rightarrow> msg
                         | Some n \<Rightarrow> if n \<noteq> [] then ''Flag '' @ sq @ n @ sq @ '': '' @ msg else msg);
          fullMessage = (case ov of
                           None \<Rightarrow> baseMessage
                         | Some v \<Rightarrow> baseMessage @ '' (value: '' @ dq @ v @ dq @ '')'')
      in FlagParseError fullMessage fn ov)"

section \<open>Typed values\<close>

text \<open>
  The four implementations of \<open>IFlag\<close>. A string list keeps its current sequence and
  the frozen copy of its default.
\<close>

datatype IFlag =
    BooleanValue bool
  | StringValue string
  | NumberValue number
  | StringListValue "string list" "string list"

fun setValue :: "string \<Rightarrow> IFlag \<Rightarrow> FlagError + IFlag" where
  "setValue stringValue (BooleanValue b) =
     (let lower = toLowerCase stringValue
      in if lower = ''true'' \<or> lower = ''1'' then Inr (BooleanValue True)
         else if lower = ''false'' \<or> lower = ''0'' then Inr (BooleanValue False)
         else Inl (newFlagParseError ''invalid boolean value'' None (Some stringValue)))"
| "setValue stringValue (StringValue s) = Inr (StringValue stringValue)"
| "setValue stringValue (NumberValue x) =
     (let num = parseFloat stringValue
      in if isNaN num then Inl (newFlagParseError ''invalid number'' None (Some stringValue))
         else Inr (NumberValue num))"
| "setValue stringValue (StringListValue cur ini) = Inr (StringListValue (cur @ [stringValue]) ini)"

fun asString :: "IFlag \<Rightarrow> string" where
  "asString (BooleanValue b) = (if b then ''true'' else ''false'')"
| "asString (StringValue s) = s"
| "asString (NumberValue x) = numberToString x"
| "asString (StringListValue cur ini) = (if cur = [] \<and> ini = [] then [] else join '', '' cur)"

fun typeName :: "IFlag \<Rightarrow> string" where
  "typeName (BooleanValue b) = ''boolean''"
| "typeName (StringValue s) = ''string''"
| "typeName (NumberValue x) = ''number''"
| "typeName (StringListValue cur ini) = ''string[]''"

fun expectsExplicitValue :: "IFlag \<Rightarrow> bool" where
  "expectsExplicitValue (BooleanValue b) = False"
| "expectsExplicitValue (StringValue s) = True"
| "expectsExplicitValue (NumberValue x) = True"
| "expectsExplicitValue (StringListValue cur ini) = True"

text \<open>
  \<open>_clearAndReset(value)\<close>: the scalar variants run \<open>value && this.set(value)\<close>, so an
  empty string (falsy) sets nothing; the string list restores its frozen default.
\<close>

fun clearAndReset :: "string \<Rightarrow> IFlag \<Rightarrow> FlagError + IFlag" where
  "clearAndReset v (StringListValue cur ini) = Inr (StringListValue ini ini)"
| "clearAndReset v holder = (if v \<noteq> [] then setValue v holder else Inr holder)"

section \<open>Flags\<close>

record Flag =
  name :: string
  description :: string
  alias_opt :: "string option"
  valueHolder :: IFlag
  initialDefaultValueString :: string
  isSet :: bool

text \<open>
  The constructor of \<open>Flag\<close>. An alias that is absent or empty is not stored; one
  that is stored is a single character other than \<open>-\<close> and \<open>=\<close>.
\<close>

definition newFlag :: "string \<Rightarrow> string \<Rightarrow> string option \<Rightarrow> IFlag \<Rightarrow> FlagError + Flag" where
  "newFlag nm descr al holder =
     (let a = (case al of None \<Rightarrow> [] | Some x \<Rightarrow> x)
      in if a \<noteq> [] \<and> (length a \<noteq> 1 \<or> a = ''-'' \<or> a = ''='') then
           Inl (FlagDefinitionError
                  (''Alias for flag '' @ dq @ nm @ dq @
                   '' must be a single character and not '' @ sq @ ''-'' @ sq @ '' or '' @
                   sq @ ''='' @ sq @ '', got '' @ dq @ a @ dq @ ''.''))
         else
           Inr \<lparr> name = nm, description = descr,
                 alias_opt = (if a \<noteq> [] then Some a else None),
                 valueHolder = holder,
                 initialDefaultValueString = asString holder,
                 isSet = False \<rparr>)"

definition setValueFromString :: "string \<Rightarrow> Flag \<Rightarrow> FlagError + Flag" where
  "setValueFromString stringValue f =
     (case setValue stringValue (valueHolder f) of
        Inl e \<Rightarrow> Inl e
      | Inr h \<Rightarrow> Inr (f\<lparr>valueHolder := h, isSet := True\<rparr>))"

definition setImplicitly :: "Flag \<Rightarrow> FlagError + Flag" where
  "setImplicitly f =
     (if typeName (valueHolder f) = ''boolean'' then
        (case setValue ''true'' (valueHolder f) of
           Inl e \<Rightarrow> Inl e
         | Inr h \<Rightarrow> Inr (f\<lparr>valueHolder := h, isSet := True\<rparr>))
      else Inl (newFlagParseError ''cannot be set implicitly without a value'' (Some (name f)) None))"

definition resetToDefault :: "Flag \<Rightarrow> FlagError + Flag" where
  "resetToDefault f =
     (case clearAndReset (initialDefaultValueString f) (valueHolder f) of
        Inl e \<Rightarrow> Inl e
      | Inr h \<Rightarrow> Inr (f\<lparr>valueHolder := h, isSet := False\<rparr>))"

section \<open>The registry\<close>

text \<open>
  A \<open>Map\<close> of the host language is an association list in insertion order:
  \<open>get\<close> finds the first entry of a key, \<open>set\<close> replaces the entry of a key that
  is present and appends one that is not.
\<close>

definition Map_get :: "('k \<times> 'v) list \<Rightarrow> 'k \<Rightarrow> 'v option" where
  "Map_get m k = map_of m k"

definition Map_has :: "('k \<times> 'v) list \<Rightarrow> 'k \<Rightarrow> bool" where
  "Map_has m k = (map_of m k \<noteq> None)"

fun Map_set :: "('k \<times> 'v) list \<Rightarrow> 'k \<Rightarrow> 'v \<Rightarrow> ('k \<times> 'v) list" where
  "Map_set [] k v = [(k, v)]"
| "Map_set ((k', v') # m) k v = (if k' = k then (k, v) # m else (k', v') # Map_set m k v)"

text \<open>
  The state of a \<open>FlagSet\<close>. \<open>argProvider\<close> holds the tokens the injected argument
  provider returns; the output writer plays no part in parsing.
\<close>

record FlagSet =
  flags :: "(string \<times> Flag) list"
  aliases :: "(string \<times> string) list"
  argProvider :: "string list"
  programName :: string
  isParsed :: bool
  processingArgs :: "string list"

definition newFlagSet :: "string \<Rightarrow> string list \<Rightarrow> FlagSet" where
  "newFlagSet prog provided =
     \<lparr> flags = [], aliases = [], argProvider = provided, programName = prog,
       isParsed = False, processingArgs = [] \<rparr>"

definition registerFlag :: "Flag \<Rightarrow> FlagSet \<Rightarrow> FlagError + FlagSet" where
  "registerFlag f fs =
     (if Map_has (flags fs) (name f) \<or> Map_has (aliases fs) (name f) then
        Inl (FlagDefinitionError
               (''Flag name or alias '' @ dq @ name f @ dq @ '' is already registered.''))
      else
        (case alias_opt f of
           None \<Rightarrow> Inr (fs\<lparr>flags := Map_set (flags fs) (name f) f\<rparr>)
         | Some a \<Rightarrow>
             if Map_has (flags fs) a \<or> Map_has (aliases fs) a \<or> a \<in> set (map snd (aliases fs)) then
               Inl (FlagDefinitionError
                      (''Alias '' @ dq @ a @ dq @ '' (for flag '' @ dq @ name f @ dq @
                       '') is already registered as a name or alias.''))
             else
               Inr (fs\<lparr>aliases := Map_set (aliases fs) a (name f),
                        flags := Map_set (flags fs) (name f) f\<rparr>)))"

text \<open>
  The four factory methods. Each takes the name, the description, the optional alias
  and the optional default of its options object, and returns the registry with the
  new flag registered (the source also returns the flag, which the model reaches by
  its name).
\<close>

definition declare_with :: "string \<Rightarrow> string \<Rightarrow> string option \<Rightarrow> IFlag \<Rightarrow> FlagSet \<Rightarrow> FlagError + FlagSet" where
  "declare_with nm descr al holder fs =
     (case newFlag nm descr al holder of
        Inl e \<Rightarrow> Inl e
      | Inr f \<Rightarrow> registerFlag f fs)"

definition FlagSet_bool :: "string \<Rightarrow> string \<Rightarrow> string option \<Rightarrow> bool option \<Rightarrow> FlagSet \<Rightarrow> FlagError + FlagSet" where
  "FlagSet_bool nm descr al dflt fs =
     declare_with nm descr al (BooleanValue (case dflt of None \<Rightarrow> False | Some b \<Rightarrow> b)) fs"

definition FlagSet_string :: "string \<Rightarrow> string \<Rightarrow> string option \<Rightarrow> string option \<Rightarrow> FlagSet \<Rightarrow> FlagError + FlagSet" where
  "FlagSet_string nm descr al dflt fs =
     declare_with nm descr al (StringValue (case dflt of None \<Rightarrow> [] | Some s \<Rightarrow> s)) fs"

definition FlagSet_number :: "string \<Rightarrow> string \<Rightarrow> string option \<Rightarrow> number option \<Rightarrow> FlagSet \<Rightarrow> FlagError + FlagSet" where
  "FlagSet_number nm descr al dflt fs =
     declare_with nm descr al (NumberValue (case dflt of None \<Rightarrow> Finite False [] 0 | Some x \<Rightarrow> x)) fs"

definition FlagSet_stringList :: "string \<Rightarrow> string \<Rightarrow> string option \<Rightarrow> string list option \<Rightarrow> FlagSet \<Rightarrow> FlagError + FlagSet" where
  "FlagSet_stringList nm descr al dflt fs =
     declare_with nm descr al
       (let d = (case dflt of None \<Rightarrow> [] | Some xs \<Rightarrow> xs) in StringListValue d d) fs"

text \<open>
  \<open>reset\<close> visits the flags in insertion order. A flag whose reset throws stops the
  visit: the flags before it are reset, it and the flags after it are as they were,
  and the two assignments after the loop do not run.
\<close>

fun resetFlags :: "(string \<times> Flag) list \<Rightarrow> FlagError option \<times> (string \<times> Flag) list" where
  "resetFlags [] = (None, [])"
| "resetFlags ((k, f) # rest) =
     (case resetToDefault f of
        Inl e \<Rightarrow> (Some e, (k, f) # rest)
      | Inr f' \<Rightarrow> (case resetFlags rest of (r, rest') \<Rightarrow> (r, (k, f') # rest')))"

definition reset :: "FlagSet \<Rightarrow> FlagError option \<times> FlagSet" where
  "reset fs =
     (case resetFlags (flags fs) of
        (Some e, fl) \<Rightarrow> (Some e, fs\<lparr>flags := fl\<rparr>)
      | (None, fl) \<Rightarrow> (None, fs\<lparr>flags := fl, isParsed := False, processingArgs := []\<rparr>))"

section \<open>The parser\<close>

datatype ParseOneOutcome =
    FLAG_CONSUMED_AND_PROCESSED
  | TERMINATOR_CONSUMED
  | NOT_A_FLAG_ENCOUNTERED

text \<open>
  The identifier of a flag token and its inline value: one leading \<open>-\<close> is dropped,
  or two, and the rest is cut at its first \<open>=\<close>.
\<close>

definition stripDashes :: "string \<Rightarrow> string" where
  "stripDashes arg = (if startsWith arg ''--'' then drop 2 arg else drop 1 arg)"

definition splitEquals :: "string \<Rightarrow> string \<times> string option" where
  "splitEquals ident =
     (case indexOf ident CHR ''='' of
        None \<Rightarrow> (ident, None)
      | Some equalsIndex \<Rightarrow> (take equalsIndex ident, Some (drop (equalsIndex + 1) ident)))"

text \<open>\<open>this.aliases.get(flagIdentifier) || flagIdentifier\<close>: an empty name is falsy.\<close>

definition resolveFlagName :: "FlagSet \<Rightarrow> string \<Rightarrow> string" where
  "resolveFlagName fs flagIdentifier =
     (case Map_get (aliases fs) flagIdentifier of
        None \<Rightarrow> flagIdentifier
      | Some n \<Rightarrow> if n \<noteq> [] then n else flagIdentifier)"

text \<open>
  The \<open>catch\<close> of \<open>_parseOne\<close>: the error is wrapped again with the flag's name, and
  with the inline value when it carries no offending value of its own.
\<close>

definition rewrap :: "Flag \<Rightarrow> string option \<Rightarrow> FlagError \<Rightarrow> FlagError" where
  "rewrap f valueFromEqualsSyntax e =
     (case e of
        FlagParseError m fn ov \<Rightarrow>
          newFlagParseError m (Some (name f))
            (case ov of None \<Rightarrow> valueFromEqualsSyntax | Some v \<Rightarrow> Some v)
      | _ \<Rightarrow> newFlagParseError (errorMessage e) (Some (name f)) valueFromEqualsSyntax)"

text \<open>
  The \<open>try\<close> block of \<open>_parseOne\<close> on the resolved flag, the queue already without the
  flag token. The flag is an object shared with the registry: a successful
  assignment is written back under the resolved name.
\<close>

definition applyFlag :: "string \<Rightarrow> Flag \<Rightarrow> string option \<Rightarrow> FlagSet \<Rightarrow> (FlagError + ParseOneOutcome) \<times> FlagSet" where
  "applyFlag resolvedFlagName f valueFromEqualsSyntax fs =
     (if expectsExplicitValue (valueHolder f) then
        (case valueFromEqualsSyntax of
           Some v \<Rightarrow>
             (case setValueFromString v f of
                Inl e \<Rightarrow> (Inl (rewrap f valueFromEqualsSyntax e), fs)
              | Inr f' \<Rightarrow> (Inr FLAG_CONSUMED_AND_PROCESSED,
                           fs\<lparr>flags := Map_set (flags fs) resolvedFlagName f'\<rparr>))
         | None \<Rightarrow>
             (case processingArgs fs of
                [] \<Rightarrow> (Inl (rewrap f valueFromEqualsSyntax
                               (newFlagParseError ''requires a value'' (Some (name f)) None)), fs)
              | nxt # rest \<Rightarrow>
                  if startsWith nxt ''-'' then
                    (Inl (rewrap f valueFromEqualsSyntax
                            (newFlagParseError ''requires a value'' (Some (name f)) None)), fs)
                  else
                    (case setValueFromString nxt f of
                       Inl e \<Rightarrow> (Inl (rewrap f valueFromEqualsSyntax e), fs\<lparr>processingArgs := rest\<rparr>)
                     | Inr f' \<Rightarrow> (Inr FLAG_CONSUMED_AND_PROCESSED,
                                  fs\<lparr>processingArgs := rest,
                                     flags := Map_set (flags fs) resolvedFlagName f'\<rparr>))))
      else
        (case (case valueFromEqualsSyntax of
                 Some v \<Rightarrow> setValueFromString v f
               | None \<Rightarrow> setImplicitly f) of
           Inl e \<Rightarrow> (Inl (rewrap f valueFromEqualsSyntax e), fs)
         | Inr f' \<Rightarrow> (Inr FLAG_CONSUMED_AND_PROCESSED,
                      fs\<lparr>flags := Map_set (flags fs) resolvedFlagName f'\<rparr>)))"

text \<open>
  \<open>_parseOne\<close>: one step on the head of the queue. The result is what the call
  returns or throws, with the registry as the call leaves it.
\<close>

definition parseOne :: "FlagSet \<Rightarrow> (FlagError + ParseOneOutcome) \<times> FlagSet" where
  "parseOne fs =
     (case processingArgs fs of
        [] \<Rightarrow> (Inl TypeError, fs)
      | arg # rest \<Rightarrow>
          if arg = ''--'' then (Inr TERMINATOR_CONSUMED, fs\<lparr>processingArgs := rest\<rparr>)
          else if \<not> startsWith arg ''-'' \<or> arg = ''-'' then (Inr NOT_A_FLAG_ENCOUNTERED, fs)
          else
            (let fs1 = fs\<lparr>processingArgs := rest\<rparr>;
                 (flagIdentifier, valueFromEqualsSyntax) = splitEquals (stripDashes arg)
             in if flagIdentifier = [] \<or> startsWith flagIdentifier ''-'' then
                  (Inl (newFlagParseError ''Invalid flag identifier syntax'' (Some arg) None), fs1)
                else if flagIdentifier = ''h'' \<or> flagIdentifier = ''help'' then
                  (Inl HelpRequestError, fs1)
                else
                  (let resolvedFlagName = resolveFlagName fs1 flagIdentifier
                   in case Map_get (flags fs1) resolvedFlagName of
                        None \<Rightarrow> (Inl (newFlagParseError ''Unknown flag'' (Some flagIdentifier) None), fs1)
                      | Some f \<Rightarrow> applyFlag resolvedFlagName f valueFromEqualsSyntax fs1)))"

lemma applyFlag_consumes:
  "applyFlag n f v fs = (Inr out, fs') \<Longrightarrow> length (processingArgs fs') \<le> length (processingArgs fs)"
  by (auto simp: applyFlag_def split: if_splits option.splits sum.splits list.splits)

lemma parseOne_consumes:
  "parseOne fs = (Inr FLAG_CONSUMED_AND_PROCESSED, fs') \<Longrightarrow>
   length (processingArgs fs') < length (processingArgs fs)"
  by (auto simp: parseOne_def Let_def split: list.splits if_splits prod.splits option.splits
      dest!: applyFlag_consumes)

text \<open>
  The \<open>while\<close> loop of \<open>parse\<close>: it runs while the queue is not empty, goes on after
  a consumed flag, and empties the queue and stops after the terminator or a token
  that is no flag. An error of \<open>_parseOne\<close> leaves the loop with the registry as the
  step left it.
\<close>

function parseLoop :: "FlagSet \<Rightarrow> FlagError option \<times> FlagSet" where
  "parseLoop fs =
     (if processingArgs fs = [] then (None, fs)
      else
        (case parseOne fs of
           (Inl e, fs') \<Rightarrow> (Some e, fs')
         | (Inr outcome, fs') \<Rightarrow>
             (case outcome of
                FLAG_CONSUMED_AND_PROCESSED \<Rightarrow> parseLoop fs'
              | TERMINATOR_CONSUMED \<Rightarrow> (None, fs'\<lparr>processingArgs := []\<rparr>)
              | NOT_A_FLAG_ENCOUNTERED \<Rightarrow> (None, fs'\<lparr>processingArgs := []\<rparr>))))"
  by pat_completeness auto
termination
  by (relation "measure (\<lambda>fs. length (processingArgs fs))")
     (auto dest: parseOne_consumes [OF sym])

declare parseLoop.simps [simp del]

text \<open>
  \<open>parse(argv)\<close>: a registry already parsed is reset first (an error of the reset
  leaves \<open>parse\<close> before its \<open>try\<close>); the queue is loaded from \<open>argv\<close>, or from the
  argument provider when \<open>argv\<close> is absent; after the loop, and in the \<open>catch\<close> of
  any error, \<open>_isParsed\<close> is set and the queue emptied. The result is the error
  \<open>parse\<close> throws, if any, and the registry it leaves.
\<close>

definition parse :: "string list option \<Rightarrow> FlagSet \<Rightarrow> FlagError option \<times> FlagSet" where
  "parse argv fs =
     (case (if isParsed fs then reset fs else (None, fs)) of
        (Some e, fs0) \<Rightarrow> (Some e, fs0)
      | (None, fs0) \<Rightarrow>
          (case parseLoop (fs0\<lparr>processingArgs := (case argv of None \<Rightarrow> argProvider fs0 | Some a \<Rightarrow> a)\<rparr>) of
             (r, fs1) \<Rightarrow> (r, fs1\<lparr>isParsed := True, processingArgs := []\<rparr>)))"

text \<open>The value of the flag registered under a name, as the getter \<open>value\<close> reads it.\<close>

definition holderOf :: "FlagSet \<Rightarrow> string \<Rightarrow> IFlag option" where
  "holderOf fs nm = map_option valueHolder (Map_get (flags fs) nm)"

section \<open>Example registries\<close>

text \<open>Sequencing of calls that may throw: the first error ends the sequence.\<close>

definition andThen :: "FlagError + 'a \<Rightarrow> ('a \<Rightarrow> FlagError + 'b) \<Rightarrow> FlagError + 'b" where
  "andThen r f = (case r of Inl e \<Rightarrow> Inl e | Inr x \<Rightarrow> f x)"

text \<open>
  The registry of the parsing tests: boolean \<open>verbose\<close>/\<open>v\<close>, string \<open>config\<close>/\<open>c\<close>
  with default \<open>default.json\<close>, number \<open>port\<close>/\<open>p\<close> and string list
  \<open>include\<close>/\<open>i\<close>.
\<close>

definition declareExample :: "FlagError + FlagSet" where
  "declareExample =
     andThen (andThen (andThen
       (FlagSet_bool ''verbose'' ''Verbose output'' (Some ''v'') None (newFlagSet ''test-cli'' []))
       (FlagSet_string ''config'' ''Config file'' (Some ''c'') (Some ''default.json'')))
       (FlagSet_number ''port'' ''Port number'' (Some ''p'') None))
       (FlagSet_stringList ''include'' ''Include paths'' (Some ''i'') None)"

definition exampleSet :: FlagSet where
  "exampleSet = (case declareExample of Inr fs \<Rightarrow> fs | Inl e \<Rightarrow> newFlagSet [] [])"

text \<open>A registry with one string flag \<open>name\<close> declared without a default.\<close>

definition declareName :: "FlagError + FlagSet" where
  "declareName = FlagSet_string ''name'' ''n'' None None (newFlagSet ''test-cli'' [])"

definition nameSet :: FlagSet where
  "nameSet = (case declareName of Inr fs \<Rightarrow> fs | Inl e \<Rightarrow> newFlagSet [] [])"

text \<open>The flag that \<open>nameSet\<close> holds, as its constructor returns it.\<close>

definition nameFlag :: Flag where
  "nameFlag = \<lparr> name = ''name'', description = ''n'', alias_opt = None,
                valueHolder = StringValue [], initialDefaultValueString = [], isSet = False \<rparr>"

section \<open>Notions for the statements about one step\<close>

text \<open>
  The head token \<open>arg\<close> of the queue addresses the flag \<open>f\<close>: it passes the checks
  of \<open>_parseOne\<close> before the \<open>try\<close> block (it is no terminator, starts with \<open>-\<close>, has
  a well-formed identifier \<open>ident\<close> that is not a help request, with inline value
  \<open>inline\<close>) and its identifier resolves to \<open>f\<close>.
\<close>

definition addressesFlag :: "FlagSet \<Rightarrow> string \<Rightarrow> string \<Rightarrow> string option \<Rightarrow> Flag \<Rightarrow> bool" where
  "addressesFlag fs arg ident inline f =
     (arg \<noteq> ''--'' \<and> startsWith arg ''-'' \<and> arg \<noteq> ''-'' \<and>
      splitEquals (stripDashes arg) = (ident, inline) \<and>
      ident \<noteq> [] \<and> \<not> startsWith ident ''-'' \<and> ident \<noteq> ''h'' \<and> ident \<noteq> ''help'' \<and>
      Map_get (flags fs) (resolveFlagName fs ident) = Some f)"

text \<open>The two parts the constructor of \<open>FlagParseError\<close> adds to a message.\<close>

definition flagPrefix :: "string \<Rightarrow> string" where
  "flagPrefix n = (if n \<noteq> [] then ''Flag '' @ sq @ n @ sq @ '': '' else [])"

definition valueSuffix :: "string \<Rightarrow> string" where
  "valueSuffix v = '' (value: '' @ dq @ v @ dq @ '')''"

text \<open>
  The outcome of a step that assigns the string \<open>v\<close> to the flag \<open>f\<close> registered
  under \<open>key\<close> and leaves the queue \<open>q\<close>: the flag holds what \<open>set\<close> made of \<open>v\<close>
  and is marked as set, or the error of \<open>set\<close> is thrown, wrapped with the flag's
  name, and the flag is as it was.
\<close>

definition assignValue :: "FlagSet \<Rightarrow> string \<Rightarrow> Flag \<Rightarrow> string option \<Rightarrow> string \<Rightarrow> string list \<Rightarrow> (FlagError + ParseOneOutcome) \<times> FlagSet" where
  "assignValue fs key f inline v q =
     (case setValue v (valueHolder f) of
        Inr h \<Rightarrow> (Inr FLAG_CONSUMED_AND_PROCESSED,
                  fs\<lparr>processingArgs := q,
                     flags := Map_set (flags fs) key (f\<lparr>valueHolder := h, isSet := True\<rparr>)\<rparr>)
      | Inl e \<Rightarrow> (Inl (rewrap f inline e), fs\<lparr>processingArgs := q\<rparr>))"

text \<open>The error of a flag that needs a value and finds none, as \<open>_parseOne\<close> throws it.\<close>

definition requiresValueError :: "Flag \<Rightarrow> FlagError" where
  "requiresValueError f =
     FlagParseError (flagPrefix (name f) @ flagPrefix (name f) @ ''requires a value'') (Some (name f)) None"

text \<open>Two flags of the example registry, as their constructors return them.\<close>

definition verboseFlag :: Flag where
  "verboseFlag = \<lparr> name = ''verbose'', description = ''Verbose output'', alias_opt = Some ''v'',
       valueHolder = BooleanValue False, initialDefaultValueString = ''false'', isSet = False \<rparr>"

definition portFlag :: Flag where
  "portFlag = \<lparr> name = ''port'', description = ''Port number'', alias_opt = Some ''p'',
       valueHolder = NumberValue (Finite False [] 0), initialDefaultValueString = ''0'', isSet = False \<rparr>"

text \<open>
  A registry with a boolean flag named \<open>help\<close> (alias \<open>x\<close>) and a boolean flag
  \<open>verbose\<close> with the alias \<open>h\<close>.
\<close>

definition declareHelp :: "FlagError + FlagSet" where
  "declareHelp =
     andThen
       (FlagSet_bool ''help'' ''A flag named help'' (Some ''x'') None (newFlagSet ''test-cli'' []))
       (FlagSet_bool ''verbose'' ''A flag with alias h'' (Some ''h'') None)"

definition helpSet :: FlagSet where
  "helpSet = (case declareHelp of Inr fs \<Rightarrow> fs | Inl e \<Rightarrow> newFlagSet [] [])"

section \<open>Notions for the statements about the loop\<close>

text \<open>
  The registry after \<open>k\<close> iterations of the loop that each consumed a flag; \<open>None\<close>
  when one of the first \<open>k\<close> iterations does not run or does not consume a flag.
\<close>

fun consumeFlags :: "nat \<Rightarrow> FlagSet \<Rightarrow> FlagSet option" where
  "consumeFlags 0 fs = Some fs"
| "consumeFlags (Suc k) fs =
     (if processingArgs fs = [] then None
      else (case parseOne fs of
              (Inr FLAG_CONSUMED_AND_PROCESSED, fs') \<Rightarrow> consumeFlags k fs'
            | _ \<Rightarrow> None))"

text \<open>The result of the loop once \<open>parse\<close> has emptied the queue.\<close>

definition clearQueue :: "FlagError option \<times> FlagSet \<Rightarrow> FlagError option \<times> FlagSet" where
  "clearQueue r = (fst r, (snd r)\<lparr>processingArgs := []\<rparr>)"

section \<open>Notions for the statement about aliases\<close>

text \<open>
  An identifier that reaches the lookup of \<open>_parseOne\<close> as it is: not empty, not
  starting with \<open>-\<close>, without \<open>=\<close>, and not a help request.
\<close>

definition plainIdentifier :: "string \<Rightarrow> bool" where
  "plainIdentifier i =
     (i \<noteq> [] \<and> \<not> startsWith i ''-'' \<and> indexOf i CHR ''='' = None \<and> i \<noteq> ''h'' \<and> i \<noteq> ''help'')"

text \<open>
  In the registry, \<open>a\<close> is an alias of the flag registered under the name \<open>n\<close>: the
  alias table maps \<open>a\<close> to \<open>n\<close>, the name \<open>n\<close> resolves to itself, the flag table
  has an entry for \<open>n\<close>, and both are plain identifiers.
\<close>

definition aliasFor :: "FlagSet \<Rightarrow> string \<Rightarrow> string \<Rightarrow> bool" where
  "aliasFor fs a n =
     (Map_get (aliases fs) a = Some n \<and> resolveFlagName fs n = n \<and> Map_has (flags fs) n \<and>
      plainIdentifier a \<and> plainIdentifier n)"

text \<open>
  The alias table of a registry is well formed: every alias is a single character
  other than \<open>-\<close> and \<open>=\<close>, and the name it maps to is the name of a registered
  flag and resolves to itself. The declaration methods establish this, and \<open>parse\<close>
  keeps it.
\<close>

definition wellFormedAliases :: "FlagSet \<Rightarrow> bool" where
  "wellFormedAliases fs =
     list_all (\<lambda>(a, n). length a = 1 \<and> a \<noteq> ''-'' \<and> a \<noteq> ''='' \<and>
                         Map_has (flags fs) n \<and> resolveFlagName fs n = n)
       (aliases fs)"

text \<open>
  The tokens \<open>t1\<close> and \<open>t2\<close> are the same, or \<open>t1\<close> is a flag token with the
  identifier \<open>a\<close> and \<open>t2\<close> a flag token with the identifier \<open>n\<close>, with the same
  inline value (or both with none).
\<close>

definition sameToken :: "string \<Rightarrow> string \<Rightarrow> string \<Rightarrow> string \<Rightarrow> bool" where
  "sameToken a n t1 t2 =
     (t1 = t2 \<or>
      (startsWith t1 ''-'' \<and> startsWith t2 ''-'' \<and>
       fst (splitEquals (stripDashes t1)) = a \<and> fst (splitEquals (stripDashes t2)) = n \<and>
       snd (splitEquals (stripDashes t1)) = snd (splitEquals (stripDashes t2))))"

section \<open>Notions for the statement about numbers\<close>





lemma declareExample_ok: "declareExample = Inr exampleSet"
  by code_simp

lemma declareName_ok: "declareName = Inr nameSet"
  by code_simp

section \<open>Reset\<close>

text \<open>
  C1. \<open>resetToDefault\<close> is claimed to restore the constructor-time default of every
  flag. For a string flag constructed with the default \<open>""\<close> (the default of a
  string flag declared without one) it does not: after any assignment \<open>v\<close>, the
  reset keeps \<open>v\<close> and only clears \<open>isSet\<close>, because the rendered default is the
  empty string, which \<open>value && this.set(value)\<close> skips.
\<close>

theorem resetToDefault_empty_default:
  assumes "newFlag nm descr al (StringValue []) = Inr f"
    and "setValueFromString v f = Inr f1"
  shows "resetToDefault f1 = Inr (f\<lparr>valueHolder := StringValue v, isSet := False\<rparr>)"
proof -
  from assms(1) have "valueHolder f = StringValue []" "initialDefaultValueString f = []"
    by (auto simp: newFlag_def Let_def split: if_splits)
  moreover from assms(2) this have "f1 = f\<lparr>valueHolder := StringValue v, isSet := True\<rparr>"
    by (auto simp: setValueFromString_def)
  ultimately show ?thesis
    by (simp add: resetToDefault_def)
qed

theorem resetToDefault_empty_default_witness:
  "newFlag ''name'' ''n'' None (StringValue []) = Inr nameFlag \<and>
   valueHolder nameFlag = StringValue [] \<and>
   setValueFromString ''x'' nameFlag = Inr (nameFlag\<lparr>valueHolder := StringValue ''x'', isSet := True\<rparr>) \<and>
   resetToDefault (nameFlag\<lparr>valueHolder := StringValue ''x'', isSet := True\<rparr>)
     = Inr (nameFlag\<lparr>valueHolder := StringValue ''x'', isSet := False\<rparr>)"
proof -
  have h1: "newFlag ''name'' ''n'' None (StringValue []) = Inr nameFlag"
    by code_simp
  have h2: "setValueFromString ''x'' nameFlag
              = Inr (nameFlag\<lparr>valueHolder := StringValue ''x'', isSet := True\<rparr>)"
    by code_simp
  have h3: "valueHolder nameFlag = StringValue []"
    by code_simp
  show ?thesis
    using resetToDefault_empty_default [OF h1 h2] h1 h2 h3 by simp
qed

text \<open>
  C2. A second \<open>parse\<close> is claimed to restore every flag to its default before it
  consumes the new tokens. On the registry with the string flag \<open>name\<close> (default
  \<open>""\<close>), parsing \<open>--name x\<close> and then parsing no tokens at all leaves \<open>name\<close> at
  \<open>x\<close>: the reset the second call runs does not restore an empty default.
\<close>

theorem parse_twice_carries_over:
  "holderOf nameSet ''name'' = Some (StringValue []) \<and>
   fst (parse (Some [''--name'', ''x'']) nameSet) = None \<and>
   fst (parse (Some []) (snd (parse (Some [''--name'', ''x'']) nameSet))) = None \<and>
   holderOf (snd (parse (Some []) (snd (parse (Some [''--name'', ''x'']) nameSet)))) ''name''
     = Some (StringValue ''x'')"
  by code_simp

section \<open>The parsed state\<close>

lemma reset_error_isParsed:
  "reset fs = (Some e, fs') \<Longrightarrow> isParsed fs' = isParsed fs"
  by (auto simp: reset_def split: prod.splits option.splits)

text \<open>
  C4, as stated: a parse that raises the help signal leaves \<open>isParsed\<close> unchanged.
  On the fresh example registry, \<open>parse ["-h"]\<close> raises the help signal and
  \<open>isParsed\<close> goes from false to true.
\<close>

theorem help_sets_isParsed:
  "\<not> isParsed exampleSet \<and>
   fst (parse (Some [''-h'']) exampleSet) = Some HelpRequestError \<and>
   isParsed (snd (parse (Some [''-h'']) exampleSet))"
  by code_simp

text \<open>
  C4, amended: every call of \<open>parse\<close> leaves \<open>isParsed\<close> true, whether it completes,
  fails with a parse error or raises the help signal (the \<open>catch\<close> of \<open>parse\<close> sets
  it for every error).
\<close>

theorem parse_sets_isParsed: "isParsed (snd (parse argv fs))"
  by (auto simp: parse_def split: prod.splits option.splits if_splits
      dest: reset_error_isParsed)

section \<open>One step of the parser\<close>

lemma declareHelp_ok: "declareHelp = Inr helpSet"
  by code_simp

lemma resolveFlagName_queue [simp]:
  "resolveFlagName (fs\<lparr>processingArgs := q\<rparr>) ident = resolveFlagName fs ident"
  by (simp add: resolveFlagName_def)

lemma parseOne_flag_token:
  assumes "processingArgs fs = arg # rest" and "addressesFlag fs arg ident inline f"
  shows "parseOne fs = applyFlag (resolveFlagName fs ident) f inline (fs\<lparr>processingArgs := rest\<rparr>)"
  using assms by (simp add: parseOne_def addressesFlag_def)

lemma newFlagParseError_eq:
  "newFlagParseError msg (Some n) None = FlagParseError (flagPrefix n @ msg) (Some n) None"
  "newFlagParseError msg (Some n) (Some v) = FlagParseError (flagPrefix n @ msg @ valueSuffix v) (Some n) (Some v)"
  "newFlagParseError msg None (Some v) = FlagParseError (msg @ valueSuffix v) None (Some v)"
  "newFlagParseError msg None None = FlagParseError msg None None"
  by (simp_all add: newFlagParseError_def flagPrefix_def valueSuffix_def)

lemma toLowerCase_true: "toLowerCase ''true'' = ''true''"
  by code_simp

text \<open>
  C3, as stated: a value token that follows a boolean flag token is consumed and
  applied. On the example registry, \<open>parse ["--verbose", "false"]\<close> succeeds with
  \<open>verbose\<close> true: the step on \<open>--verbose\<close> leaves \<open>false\<close> in the queue, and the
  next step stops the parse there, since \<open>false\<close> is no flag.
\<close>

theorem boolean_following_token_not_consumed:
  "fst (parse (Some [''--verbose'', ''false'']) exampleSet) = None \<and>
   holderOf (snd (parse (Some [''--verbose'', ''false'']) exampleSet)) ''verbose''
     = Some (BooleanValue True) \<and>
   parseOne (exampleSet\<lparr>processingArgs := [''--verbose'', ''false'']\<rparr>)
     = (Inr FLAG_CONSUMED_AND_PROCESSED,
        exampleSet\<lparr>processingArgs := [''false''],
                    flags := Map_set (flags exampleSet) ''verbose''
                      (verboseFlag\<lparr>valueHolder := BooleanValue True, isSet := True\<rparr>)\<rparr>)"
  by code_simp

text \<open>
  C3, amended: a boolean flag token without an inline value sets the flag to true;
  with an inline \<open>=value\<close> the flag takes that value when it is \<open>true\<close>/\<open>1\<close> or
  \<open>false\<close>/\<open>0\<close> in any letter case, and the step fails with an error naming the flag
  and the value otherwise. In every case the queue after the step is the queue
  behind the flag token: a following token is never consumed as the value.
\<close>

theorem boolean_flag_token:
  assumes "processingArgs fs = arg # rest"
    and "addressesFlag fs arg ident inline f"
    and "valueHolder f = BooleanValue b"
  shows "parseOne fs =
     (case inline of
        None \<Rightarrow>
          (Inr FLAG_CONSUMED_AND_PROCESSED,
           fs\<lparr>processingArgs := rest,
              flags := Map_set (flags fs) (resolveFlagName fs ident)
                         (f\<lparr>valueHolder := BooleanValue True, isSet := True\<rparr>)\<rparr>)
      | Some v \<Rightarrow>
          if toLowerCase v = ''true'' \<or> toLowerCase v = ''1'' then
            (Inr FLAG_CONSUMED_AND_PROCESSED,
             fs\<lparr>processingArgs := rest,
                flags := Map_set (flags fs) (resolveFlagName fs ident)
                           (f\<lparr>valueHolder := BooleanValue True, isSet := True\<rparr>)\<rparr>)
          else if toLowerCase v = ''false'' \<or> toLowerCase v = ''0'' then
            (Inr FLAG_CONSUMED_AND_PROCESSED,
             fs\<lparr>processingArgs := rest,
                flags := Map_set (flags fs) (resolveFlagName fs ident)
                           (f\<lparr>valueHolder := BooleanValue False, isSet := True\<rparr>)\<rparr>)
          else
            (Inl (FlagParseError
                    (flagPrefix (name f) @ ''invalid boolean value'' @ valueSuffix v @ valueSuffix v)
                    (Some (name f)) (Some v)),
             fs\<lparr>processingArgs := rest\<rparr>))"
  using assms(3)
  by (simp add: parseOne_flag_token [OF assms(1,2)] applyFlag_def setValueFromString_def
      setImplicitly_def rewrap_def newFlagParseError_eq toLowerCase_true Let_def split: option.splits)

theorem boolean_flag_token_witness:
  "addressesFlag exampleSet ''-v=FALSE'' ''v'' (Some ''FALSE'') verboseFlag \<and>
   valueHolder verboseFlag = BooleanValue False \<and>
   parseOne (exampleSet\<lparr>processingArgs := [''-v=FALSE'', ''true'']\<rparr>)
     = (Inr FLAG_CONSUMED_AND_PROCESSED,
        exampleSet\<lparr>processingArgs := [''true''],
                    flags := Map_set (flags exampleSet) ''verbose''
                      (verboseFlag\<lparr>valueHolder := BooleanValue False, isSet := True\<rparr>)\<rparr>)"
proof -
  have h1: "processingArgs (exampleSet\<lparr>processingArgs := [''-v=FALSE'', ''true'']\<rparr>) = [''-v=FALSE'', ''true'']"
    by simp
  have h2: "addressesFlag (exampleSet\<lparr>processingArgs := [''-v=FALSE'', ''true'']\<rparr>) ''-v=FALSE'' ''v'' (Some ''FALSE'') verboseFlag"
    by code_simp
  have h2': "addressesFlag exampleSet ''-v=FALSE'' ''v'' (Some ''FALSE'') verboseFlag"
    by code_simp
  have h3: "valueHolder verboseFlag = BooleanValue False"
    by (simp add: verboseFlag_def)
  have l: "toLowerCase ''FALSE'' = ''false''"
    by code_simp
  have r: "resolveFlagName exampleSet ''v'' = ''verbose''"
    by code_simp
  show ?thesis
    using boolean_flag_token [OF h1 h2 h3] h2' h3 l r by simp
qed

text \<open>
  C6. A flag token that addresses a flag requiring an explicit value: an inline
  \<open>=value\<close> is assigned and the following token stays in the queue; without an
  inline value the next token is consumed and assigned when there is one and it
  does not start with \<open>-\<close>; when the queue is empty or its next token starts with
  \<open>-\<close>, the step fails with the "requires a value" error naming the flag, and
  consumes nothing more.
\<close>

theorem explicit_value_token:
  assumes "processingArgs fs = arg # rest"
    and "addressesFlag fs arg ident inline f"
    and "expectsExplicitValue (valueHolder f)"
  shows "parseOne fs =
     (case inline of
        Some v \<Rightarrow> assignValue fs (resolveFlagName fs ident) f inline v rest
      | None \<Rightarrow>
          (case rest of
             [] \<Rightarrow> (Inl (requiresValueError f), fs\<lparr>processingArgs := rest\<rparr>)
           | nxt # rest' \<Rightarrow>
               if startsWith nxt ''-'' then (Inl (requiresValueError f), fs\<lparr>processingArgs := rest\<rparr>)
               else assignValue fs (resolveFlagName fs ident) f inline nxt rest'))"
  using assms(3)
  by (simp add: parseOne_flag_token [OF assms(1,2)] applyFlag_def setValueFromString_def
      assignValue_def requiresValueError_def rewrap_def newFlagParseError_eq
      split: option.splits list.splits sum.splits)

theorem explicit_value_token_witness:
  "addressesFlag exampleSet ''--port=8080'' ''port'' (Some ''8080'') portFlag \<and>
   expectsExplicitValue (valueHolder portFlag) \<and>
   parseOne (exampleSet\<lparr>processingArgs := [''--port=8080'', ''9090'']\<rparr>)
     = (Inr FLAG_CONSUMED_AND_PROCESSED,
        exampleSet\<lparr>processingArgs := [''9090''],
                    flags := Map_set (flags exampleSet) ''port''
                      (portFlag\<lparr>valueHolder := NumberValue (Finite False [8, 0, 8] 4),
                                isSet := True\<rparr>)\<rparr>)"
proof -
  have h1: "processingArgs (exampleSet\<lparr>processingArgs := [''--port=8080'', ''9090'']\<rparr>)
              = [''--port=8080'', ''9090'']"
    by simp
  have h2: "addressesFlag (exampleSet\<lparr>processingArgs := [''--port=8080'', ''9090'']\<rparr>)
              ''--port=8080'' ''port'' (Some ''8080'') portFlag"
    by code_simp
  have h2': "addressesFlag exampleSet ''--port=8080'' ''port'' (Some ''8080'') portFlag"
    by code_simp
  have h3: "expectsExplicitValue (valueHolder portFlag)"
    by code_simp
  have r: "resolveFlagName exampleSet ''port'' = ''port''"
    by code_simp
  have v: "setValue ''8080'' (valueHolder portFlag) = Inr (NumberValue (Finite False [8, 0, 8] 4))"
    by code_simp
  show ?thesis
    using explicit_value_token [OF h1 h2 h3] h2' h3 r v by (simp add: assignValue_def)
qed

text \<open>
  C10, as stated: a declared flag named \<open>help\<close> or \<open>h\<close>, or with the alias \<open>h\<close>, is
  never assigned a value by \<open>parse\<close>. On the registry with the flag \<open>help\<close> (alias
  \<open>x\<close>) and the flag \<open>verbose\<close> (alias \<open>h\<close>), \<open>parse ["-x", "--verbose"]\<close> succeeds
  and assigns both.
\<close>

theorem help_named_flags_assigned:
  "fst (parse (Some [''-x'', ''--verbose'']) helpSet) = None \<and>
   holderOf helpSet ''help'' = Some (BooleanValue False) \<and>
   holderOf helpSet ''verbose'' = Some (BooleanValue False) \<and>
   holderOf (snd (parse (Some [''-x'', ''--verbose'']) helpSet)) ''help'' = Some (BooleanValue True) \<and>
   holderOf (snd (parse (Some [''-x'', ''--verbose'']) helpSet)) ''verbose'' = Some (BooleanValue True)"
  by code_simp

text \<open>
  C10, amended: for every registry, a token that starts with \<open>-\<close> and whose stripped
  identifier before the first \<open>=\<close> is \<open>h\<close> or \<open>help\<close> raises the help signal when
  it is at the head of the queue, before any lookup and with or without an inline
  value: the step and the loop end with the help signal, the token consumed and no
  flag changed.
\<close>

theorem help_token:
  assumes "processingArgs fs = arg # rest"
    and "startsWith arg ''-''"
    and "fst (splitEquals (stripDashes arg)) = ''h'' \<or> fst (splitEquals (stripDashes arg)) = ''help''"
  shows "parseOne fs = (Inl HelpRequestError, fs\<lparr>processingArgs := rest\<rparr>) \<and>
         parseLoop fs = (Some HelpRequestError, fs\<lparr>processingArgs := rest\<rparr>)"
proof -
  have ne: "arg \<noteq> ''--''" "arg \<noteq> ''-''"
    using assms(3) by (auto simp: stripDashes_def splitEquals_def startsWith_def)
  obtain i v where sp: "splitEquals (stripDashes arg) = (i, v)"
    by (cases "splitEquals (stripDashes arg)")
  with assms(3) have "i = ''h'' \<or> i = ''help''"
    by simp
  then have one: "parseOne fs = (Inl HelpRequestError, fs\<lparr>processingArgs := rest\<rparr>)"
    using assms(1,2) ne sp by (auto simp: parseOne_def startsWith_def)
  then show ?thesis
    using assms(1) by (simp add: parseLoop.simps [of fs])
qed


theorem help_token_witness:
  "processingArgs (helpSet\<lparr>processingArgs := [''--help=yes'', ''-x'']\<rparr>) = [''--help=yes'', ''-x''] \<and>
   startsWith ''--help=yes'' ''-'' \<and>
   fst (splitEquals (stripDashes ''--help=yes'')) = ''help'' \<and>
   parseOne (helpSet\<lparr>processingArgs := [''--help=yes'', ''-x'']\<rparr>)
     = (Inl HelpRequestError, helpSet\<lparr>processingArgs := [''-x'']\<rparr>) \<and>
   parseLoop (helpSet\<lparr>processingArgs := [''--help=yes'', ''-x'']\<rparr>)
     = (Some HelpRequestError, helpSet\<lparr>processingArgs := [''-x'']\<rparr>)"
proof -
  have h1: "processingArgs (helpSet\<lparr>processingArgs := [''--help=yes'', ''-x'']\<rparr>) = [''--help=yes'', ''-x'']"
    by simp
  have h2: "startsWith ''--help=yes'' ''-''"
    by code_simp
  have h3: "fst (splitEquals (stripDashes ''--help=yes'')) = ''help''"
    by code_simp
  show ?thesis
    using help_token [OF h1 h2 disjI2 [OF h3]] h2 h3 by simp
qed

section \<open>The loop\<close>

lemma applyFlag_error_frame:
  "applyFlag n f v fs = (Inl e, fs') \<Longrightarrow>
   fs'\<lparr>isParsed := b, processingArgs := q\<rparr> = fs\<lparr>isParsed := b, processingArgs := q\<rparr>"
  by (auto simp: applyFlag_def split: if_splits option.splits sum.splits list.splits)

lemma parseOne_error_frame:
  "parseOne fs = (Inl e, fs') \<Longrightarrow>
   fs'\<lparr>isParsed := b, processingArgs := q\<rparr> = fs\<lparr>isParsed := b, processingArgs := q\<rparr>"
  by (auto simp: parseOne_def Let_def split: list.splits if_splits prod.splits option.splits
      dest!: applyFlag_error_frame [where b = b and q = q])


lemma parseLoop_error:
  "processingArgs fs \<noteq> [] \<Longrightarrow> parseOne fs = (Inl e, fs') \<Longrightarrow> parseLoop fs = (Some e, fs')"
  by (simp add: parseLoop.simps [of fs])

lemma parseLoop_consumed:
  "processingArgs fs \<noteq> [] \<Longrightarrow> parseOne fs = (Inr FLAG_CONSUMED_AND_PROCESSED, fs') \<Longrightarrow>
   parseLoop fs = parseLoop fs'"
  by (simp add: parseLoop.simps [of fs])

lemma consumeFlags_Suc:
  "consumeFlags (Suc k) fs = Some fsk \<Longrightarrow>
   \<exists>fs'. processingArgs fs \<noteq> [] \<and> parseOne fs = (Inr FLAG_CONSUMED_AND_PROCESSED, fs') \<and>
         consumeFlags k fs' = Some fsk"
  by (auto split: if_splits prod.splits sum.splits ParseOneOutcome.splits)

lemma parseLoop_consumeFlags:
  "consumeFlags k fs = Some fsk \<Longrightarrow> parseLoop fs = parseLoop fsk"
proof (induction k arbitrary: fs)
  case 0
  then show ?case by simp
next
  case (Suc k)
  from consumeFlags_Suc [OF Suc.prems] obtain fs' where
    ne: "processingArgs fs \<noteq> []" and
    one: "parseOne fs = (Inr FLAG_CONSUMED_AND_PROCESSED, fs')" and
    rest: "consumeFlags k fs' = Some fsk"
    by blast
  have "parseLoop fs = parseLoop fs'"
    by (rule parseLoop_consumed [OF ne one])
  also have "\<dots> = parseLoop fsk"
    by (rule Suc.IH [OF rest])
  finally show ?case .
qed

text \<open>
  C7. When the step on the head of the queue throws, after \<open>k\<close> iterations that
  each consumed a flag, \<open>parse\<close> throws that error and leaves the registry of that
  moment with \<open>isParsed\<close> set and the queue emptied: the flags assigned by the
  earlier tokens keep their values, and nothing of the remaining queue is
  processed. The error is a parse error or the help signal alike.
\<close>

theorem parse_aborts_on_first_error:
  assumes "(if isParsed fs then reset fs else (None, fs)) = (None, fs0)"
    and "consumeFlags k (fs0\<lparr>processingArgs := argv\<rparr>) = Some fsk"
    and "processingArgs fsk \<noteq> []"
    and "parseOne fsk = (Inl e, fse)"
  shows "parse (Some argv) fs = (Some e, fsk\<lparr>isParsed := True, processingArgs := []\<rparr>)"
proof -
  have loop: "parseLoop (fs0\<lparr>processingArgs := argv\<rparr>) = (Some e, fse)"
    using parseLoop_consumeFlags [OF assms(2)] parseLoop_error [OF assms(3,4)] by simp
  show ?thesis
    using assms(1) loop parseOne_error_frame [OF assms(4), where b = True and q = "[]"] by (simp add: parse_def)
qed


theorem parse_aborts_on_first_error_witness:
  "fst (parse (Some [''--verbose'', ''--port'', ''not-a-number'', ''--config'', ''x'']) exampleSet)
     = Some (FlagParseError
               (flagPrefix ''port'' @ ''invalid number'' @ valueSuffix ''not-a-number''
                  @ valueSuffix ''not-a-number'')
               (Some ''port'') (Some ''not-a-number'')) \<and>
   holderOf (snd (parse (Some [''--verbose'', ''--port'', ''not-a-number'', ''--config'', ''x''])
                    exampleSet)) ''verbose'' = Some (BooleanValue True) \<and>
   holderOf (snd (parse (Some [''--verbose'', ''--port'', ''not-a-number'', ''--config'', ''x''])
                    exampleSet)) ''config'' = Some (StringValue ''default.json'')"
proof -
  define fsk where "fsk = exampleSet\<lparr>processingArgs := [''--port'', ''not-a-number'', ''--config'', ''x''],
     flags := Map_set (flags exampleSet) ''verbose''
                (verboseFlag\<lparr>valueHolder := BooleanValue True, isSet := True\<rparr>)\<rparr>"
  define err where "err = FlagParseError
               (flagPrefix ''port'' @ ''invalid number'' @ valueSuffix ''not-a-number''
                  @ valueSuffix ''not-a-number'')
               (Some ''port'') (Some ''not-a-number'')"
  have h1: "(if isParsed exampleSet then reset exampleSet else (None, exampleSet)) = (None, exampleSet)"
    by code_simp
  have h2: "consumeFlags 1
              (exampleSet\<lparr>processingArgs := [''--verbose'', ''--port'', ''not-a-number'', ''--config'', ''x'']\<rparr>)
            = Some fsk"
    unfolding fsk_def by code_simp
  have h3: "processingArgs fsk \<noteq> []"
    by (simp add: fsk_def)
  have h4: "parseOne fsk = (Inl err, fsk\<lparr>processingArgs := [''--config'', ''x'']\<rparr>)"
    unfolding fsk_def err_def by code_simp
  have v1: "holderOf (fsk\<lparr>isParsed := True, processingArgs := []\<rparr>) ''verbose'' = Some (BooleanValue True)"
    unfolding fsk_def by code_simp
  have v2: "holderOf (fsk\<lparr>isParsed := True, processingArgs := []\<rparr>) ''config'' = Some (StringValue ''default.json'')"
    unfolding fsk_def by code_simp
  show ?thesis
    using parse_aborts_on_first_error [OF h1 h2 h3 h4] v1 v2 by (simp add: err_def)
qed


lemma applyFlag_append:
  "processingArgs fs \<noteq> [] \<Longrightarrow> applyFlag n f v fs = (r, fs') \<Longrightarrow>
   applyFlag n f v (fs\<lparr>processingArgs := processingArgs fs @ x\<rparr>)
     = (r, fs'\<lparr>processingArgs := processingArgs fs' @ x\<rparr>)"
  by (cases "processingArgs fs")
     (auto simp: applyFlag_def split: if_splits option.splits sum.splits)

lemma parseOne_append:
  assumes "processingArgs fs = a # q" and "q \<noteq> []" and "parseOne fs = (r, fs')"
  shows "parseOne (fs\<lparr>processingArgs := a # q @ x\<rparr>)
           = (r, fs'\<lparr>processingArgs := processingArgs fs' @ x\<rparr>)"
proof -
  have ap: "\<And>n f v. applyFlag n f v (fs\<lparr>processingArgs := q\<rparr>) = (r, fs') \<Longrightarrow>
     applyFlag n f v (fs\<lparr>processingArgs := q @ x\<rparr>) = (r, fs'\<lparr>processingArgs := processingArgs fs' @ x\<rparr>)"
    using applyFlag_append [of "fs\<lparr>processingArgs := q\<rparr>" _ _ _ r fs' x] assms(2) by simp
  show ?thesis
    using assms(1,3) ap
    by (auto simp: parseOne_def Let_def split: if_splits prod.splits option.splits)
qed


lemma applyFlag_consumed_queue:
  "applyFlag n f v fs = (Inr out, fs') \<Longrightarrow>
   processingArgs fs' = processingArgs fs \<or>
   (\<exists>w. processingArgs fs = w # processingArgs fs' \<and> \<not> startsWith w ''-'')"
  by (auto simp: applyFlag_def split: if_splits option.splits sum.splits list.splits)

lemma parseOne_consumed_queue:
  "parseOne fs = (Inr FLAG_CONSUMED_AND_PROCESSED, fs') \<Longrightarrow> processingArgs fs = a # q \<Longrightarrow>
   processingArgs fs' = q \<or> (\<exists>w. q = w # processingArgs fs' \<and> \<not> startsWith w ''-'')"
  by (auto simp: parseOne_def Let_def split: if_splits prod.splits option.splits
      dest!: applyFlag_consumed_queue)

lemma terminator_stays_last:
  assumes "parseOne fs = (Inr FLAG_CONSUMED_AND_PROCESSED, fs')"
    and "processingArgs fs = a # pre @ [''--'']"
  shows "\<exists>pre'. processingArgs fs' = pre' @ [''--'']"
proof -
  from parseOne_consumed_queue [OF assms] consider
    (one) "processingArgs fs' = pre @ [''--'']"
  | (two) w where "pre @ [''--''] = w # processingArgs fs'" "\<not> startsWith w ''-''"
    by blast
  then show ?thesis
  proof cases
    case one
    then show ?thesis by blast
  next
    case two
    show ?thesis
    proof (cases pre)
      case Nil
      with two have "w = ''--''" by simp
      with two(2) show ?thesis by (simp add: startsWith_def)
    next
      case (Cons p pre')
      with two(1) have "processingArgs fs' = pre' @ [''--'']" by simp
      then show ?thesis by blast
    qed
  qed
qed

lemma parseLoop_terminator_head:
  "processingArgs fs = ''--'' # rest \<Longrightarrow> parseLoop fs = (None, fs\<lparr>processingArgs := []\<rparr>)"
  by (simp add: parseLoop.simps [of fs] parseOne_def)

lemma parseLoop_stop:
  "processingArgs fs \<noteq> [] \<Longrightarrow> parseOne fs = (Inr out, fs') \<Longrightarrow>
   out \<noteq> FLAG_CONSUMED_AND_PROCESSED \<Longrightarrow> parseLoop fs = (None, fs'\<lparr>processingArgs := []\<rparr>)"
  by (cases out) (simp_all add: parseLoop.simps [of fs])

lemma parseLoop_after_terminator:
  "processingArgs fs = pre @ [''--''] \<Longrightarrow>
   clearQueue (parseLoop (fs\<lparr>processingArgs := pre @ ''--'' # rest\<rparr>)) = clearQueue (parseLoop fs)"
proof (induction fs arbitrary: pre rule: parseLoop.induct)
  case (1 fs)
  show ?case
  proof (cases pre)
    case Nil
    with "1.prems" show ?thesis
      by (simp add: parseLoop_terminator_head clearQueue_def)
  next
    case (Cons a pre')
    with "1.prems" have q: "processingArgs fs = a # pre' @ [''--'']"
      by simp
    then have ne: "processingArgs fs \<noteq> []"
      by simp
    let ?fs2 = "fs\<lparr>processingArgs := pre @ ''--'' # rest\<rparr>"
    obtain r fs' where one: "parseOne fs = (r, fs')"
      by (cases "parseOne fs")
    have one2: "parseOne ?fs2 = (r, fs'\<lparr>processingArgs := processingArgs fs' @ rest\<rparr>)"
      using parseOne_append [OF q _ one, of rest] Cons by simp
    have ne2: "processingArgs ?fs2 \<noteq> []"
      using Cons by simp
    show ?thesis
    proof (cases r)
      case (Inl e)
      with one one2 ne ne2 show ?thesis
        by (simp add: parseLoop_error clearQueue_def)
    next
      case (Inr out)
      show ?thesis
      proof (cases "out = FLAG_CONSUMED_AND_PROCESSED")
        case True
        with Inr one have c: "parseOne fs = (Inr FLAG_CONSUMED_AND_PROCESSED, fs')"
          by simp
        from terminator_stays_last [OF c q] obtain pre'' where
          p: "processingArgs fs' = pre'' @ [''--'']"
          by blast
        have "parseLoop ?fs2 = parseLoop (fs'\<lparr>processingArgs := processingArgs fs' @ rest\<rparr>)"
          using one2 Inr True ne2 by (simp add: parseLoop_consumed)
        also have "fs'\<lparr>processingArgs := processingArgs fs' @ rest\<rparr>
                     = fs'\<lparr>processingArgs := pre'' @ ''--'' # rest\<rparr>"
          using p by simp
        finally have "clearQueue (parseLoop ?fs2)
                        = clearQueue (parseLoop (fs'\<lparr>processingArgs := pre'' @ ''--'' # rest\<rparr>))"
          by simp
        also have "\<dots> = clearQueue (parseLoop fs')"
          using "1.IH" [OF ne c [symmetric] refl refl p] .
        also have "parseLoop fs' = parseLoop fs"
          using parseLoop_consumed [OF ne c] by simp
        finally show ?thesis .
      next
        case False
        with Inr one one2 ne ne2 show ?thesis
          by (simp add: parseLoop_stop clearQueue_def)
      qed
    qed
  qed
qed


lemma clearQueue_finish:
  assumes "clearQueue (r1, s1) = clearQueue (r2, s2)"
  shows "(r1, s1\<lparr>isParsed := True, processingArgs := []\<rparr>)
           = (r2, s2\<lparr>isParsed := True, processingArgs := []\<rparr>)"
proof -
  from assms have r: "r1 = r2" and s: "s1\<lparr>processingArgs := []\<rparr> = s2\<lparr>processingArgs := []\<rparr>"
    by (simp_all add: clearQueue_def)
  have "s1\<lparr>isParsed := True, processingArgs := []\<rparr> = (s1\<lparr>processingArgs := []\<rparr>)\<lparr>isParsed := True\<rparr>"
    by simp
  also have "\<dots> = (s2\<lparr>processingArgs := []\<rparr>)\<lparr>isParsed := True\<rparr>"
    by (simp only: s)
  also have "\<dots> = s2\<lparr>isParsed := True, processingArgs := []\<rparr>"
    by simp
  finally show ?thesis
    using r by simp
qed

lemma parse_cong_clearQueue:
  assumes "\<And>fs0. (if isParsed fs then reset fs else (None, fs)) = (None, fs0) \<Longrightarrow>
                  clearQueue (parseLoop (fs0\<lparr>processingArgs := q1\<rparr>))
                  = clearQueue (parseLoop (fs0\<lparr>processingArgs := q2\<rparr>))"
  shows "parse (Some q1) fs = parse (Some q2) fs"
proof (cases "if isParsed fs then reset fs else (None, fs)")
  case (Pair r0 fs0)
  show ?thesis
  proof (cases r0)
    case (Some e)
    with Pair show ?thesis
      by (simp add: parse_def)
  next
    case None
    obtain r1 s1 where l1: "parseLoop (fs0\<lparr>processingArgs := q1\<rparr>) = (r1, s1)"
      by (cases "parseLoop (fs0\<lparr>processingArgs := q1\<rparr>)")
    obtain r2 s2 where l2: "parseLoop (fs0\<lparr>processingArgs := q2\<rparr>) = (r2, s2)"
      by (cases "parseLoop (fs0\<lparr>processingArgs := q2\<rparr>)")
    from assms [of fs0] Pair None l1 l2 have "clearQueue (r1, s1) = clearQueue (r2, s2)"
      by simp
    from clearQueue_finish [OF this] show ?thesis
      using Pair None l1 l2 by (simp add: parse_def)
  qed
qed

text \<open>
  C8. The tokens after a terminator play no part: for every registry, every tokens
  \<open>pre\<close> before the terminator and every tokens \<open>rest\<close> after it, \<open>parse\<close> gives the
  result and the registry it gives without \<open>rest\<close>; when the terminator is at the
  head of the queue the loop ends there with no error and no flag changed; and
  parsing \<open>["--verbose", "--", "--config", "x"]\<close> on the example registry leaves
  \<open>verbose\<close> true and \<open>config\<close> at its default \<open>default.json\<close>.
\<close>

theorem terminator_halts_interpretation:
  "parse (Some (pre @ ''--'' # rest)) fs = parse (Some (pre @ [''--''])) fs \<and>
   parseLoop (fs\<lparr>processingArgs := ''--'' # rest\<rparr>) = (None, fs\<lparr>processingArgs := []\<rparr>) \<and>
   fst (parse (Some [''--verbose'', ''--'', ''--config'', ''x'']) exampleSet) = None \<and>
   holderOf (snd (parse (Some [''--verbose'', ''--'', ''--config'', ''x'']) exampleSet)) ''verbose''
     = Some (BooleanValue True) \<and>
   holderOf (snd (parse (Some [''--verbose'', ''--'', ''--config'', ''x'']) exampleSet)) ''config''
     = Some (StringValue ''default.json'')"
proof -
  have indep: "parse (Some (pre @ ''--'' # rest)) fs = parse (Some (pre @ [''--''])) fs"
  proof (rule parse_cong_clearQueue)
    fix fs0
    assume "(if isParsed fs then reset fs else (None, fs)) = (None, fs0)"
    show "clearQueue (parseLoop (fs0\<lparr>processingArgs := pre @ ''--'' # rest\<rparr>))
            = clearQueue (parseLoop (fs0\<lparr>processingArgs := pre @ [''--'']\<rparr>))"
      using parseLoop_after_terminator [of "fs0\<lparr>processingArgs := pre @ [''--'']\<rparr>" pre rest]
      by simp
  qed
  have head: "parseLoop (fs\<lparr>processingArgs := ''--'' # rest\<rparr>) = (None, fs\<lparr>processingArgs := []\<rparr>)"
    using parseLoop_terminator_head [of "fs\<lparr>processingArgs := ''--'' # rest\<rparr>" rest] by simp
  have ex: "fst (parse (Some [''--verbose'', ''--'', ''--config'', ''x'']) exampleSet) = None \<and>
     holderOf (snd (parse (Some [''--verbose'', ''--'', ''--config'', ''x'']) exampleSet)) ''verbose''
       = Some (BooleanValue True) \<and>
     holderOf (snd (parse (Some [''--verbose'', ''--'', ''--config'', ''x'']) exampleSet)) ''config''
       = Some (StringValue ''default.json'')"
    by code_simp
  from indep head ex show ?thesis
    by blast
qed

section \<open>Aliases\<close>

lemma sameToken_dash:
  "sameToken a n t1 t2 \<Longrightarrow> startsWith t1 ''-'' = startsWith t2 ''-''"
  by (auto simp: sameToken_def)

lemma sameToken_value:
  "sameToken a n t1 t2 \<Longrightarrow> \<not> startsWith t1 ''-'' \<Longrightarrow> t1 = t2"
  by (auto simp: sameToken_def)

lemma applyFlag_sameToken:
  assumes "list_all2 (sameToken a n) q1 q2" and "applyFlag k f v (fs\<lparr>processingArgs := q1\<rparr>) = (r, s)"
  shows "\<exists>q2'. applyFlag k f v (fs\<lparr>processingArgs := q2\<rparr>) = (r, s\<lparr>processingArgs := q2'\<rparr>) \<and>
               list_all2 (sameToken a n) (processingArgs s) q2'"
proof (cases q1)
  case Nil
  with assms(1) have "q2 = []" by simp
  with Nil assms(2) show ?thesis
    by (intro exI [of _ "[]"])
       (auto simp: applyFlag_def split: if_splits option.splits sum.splits)
next
  case (Cons x xs)
  with assms(1) obtain y ys where q2: "q2 = y # ys" and xy: "sameToken a n x y"
    and rest: "list_all2 (sameToken a n) xs ys"
    by (auto simp: list_all2_Cons1)
  show ?thesis
  proof (cases "startsWith x ''-''")
    case True
    with sameToken_dash [OF xy] have "startsWith y ''-''" by simp
    with True Cons q2 assms show ?thesis
      by (intro exI [of _ "y # ys"])
         (auto simp: applyFlag_def split: if_splits option.splits sum.splits)
  next
    case False
    with sameToken_value [OF xy] have "x = y" by simp
    show ?thesis
    proof (cases "expectsExplicitValue (valueHolder f) \<and> v = None")
      case True
      with False \<open>x = y\<close> Cons q2 assms(2) rest show ?thesis
        by (intro exI [of _ ys])
           (auto simp: applyFlag_def split: if_splits option.splits sum.splits)
    next
      case notv: False
      with False \<open>x = y\<close> Cons q2 assms show ?thesis
        by (intro exI [of _ "y # ys"])
           (auto simp: applyFlag_def split: if_splits option.splits sum.splits)
    qed
  qed
qed


lemma sameToken_refl: "sameToken a n t t"
  by (simp add: sameToken_def)

lemma list_all2_sameToken_refl: "list_all2 (sameToken a n) q q"
  by (simp add: list_all2_refl sameToken_refl)

lemma parseOne_same_head:
  assumes "list_all2 (sameToken a n) q1 q2" and "parseOne (fs\<lparr>processingArgs := t # q1\<rparr>) = (r, s)"
  shows "\<exists>q2'. parseOne (fs\<lparr>processingArgs := t # q2\<rparr>) = (r, s\<lparr>processingArgs := q2'\<rparr>) \<and>
               list_all2 (sameToken a n) (processingArgs s) q2'"
proof -
  obtain i v where sp: "splitEquals (stripDashes t) = (i, v)"
    by (cases "splitEquals (stripDashes t)")
  consider (terminator) "t = ''--''"
    | (nf) "t \<noteq> ''--''" "\<not> startsWith t ''-'' \<or> t = ''-''"
    | (bad) "t \<noteq> ''--''" "startsWith t ''-''" "t \<noteq> ''-''" "i = [] \<or> startsWith i ''-''"
    | (hlp) "t \<noteq> ''--''" "startsWith t ''-''" "t \<noteq> ''-''" "\<not> (i = [] \<or> startsWith i ''-'')"
        "i = ''h'' \<or> i = ''help''"
    | (unk) "t \<noteq> ''--''" "startsWith t ''-''" "t \<noteq> ''-''" "\<not> (i = [] \<or> startsWith i ''-'')"
        "\<not> (i = ''h'' \<or> i = ''help'')" "Map_get (flags fs) (resolveFlagName fs i) = None"
    | (flg) f where "t \<noteq> ''--''" "startsWith t ''-''" "t \<noteq> ''-''" "\<not> (i = [] \<or> startsWith i ''-'')"
        "\<not> (i = ''h'' \<or> i = ''help'')" "Map_get (flags fs) (resolveFlagName fs i) = Some f"
    by (cases "Map_get (flags fs) (resolveFlagName fs i)") auto
  then show ?thesis
  proof cases
    case terminator
    with assms show ?thesis
      by (intro exI [of _ q2]) (auto simp: parseOne_def)
  next
    case nf
    with assms show ?thesis
      by (intro exI [of _ "t # q2"]) (auto simp: parseOne_def sameToken_refl)
  next
    case bad
    with assms sp show ?thesis
      by (intro exI [of _ q2]) (auto simp: parseOne_def)
  next
    case hlp
    with assms sp show ?thesis
      by (intro exI [of _ q2]) (auto simp: parseOne_def)
  next
    case unk
    with assms sp show ?thesis
      by (intro exI [of _ q2]) (auto simp: parseOne_def)
  next
    case flg
    with sp have e1: "parseOne (fs\<lparr>processingArgs := t # q1\<rparr>)
                        = applyFlag (resolveFlagName fs i) f v (fs\<lparr>processingArgs := q1\<rparr>)"
      and e2: "parseOne (fs\<lparr>processingArgs := t # q2\<rparr>)
                 = applyFlag (resolveFlagName fs i) f v (fs\<lparr>processingArgs := q2\<rparr>)"
      by (simp_all add: parseOne_def)
    from applyFlag_sameToken [OF assms(1)] assms(2) e1 e2 show ?thesis
      by simp
  qed
qed

lemma plainIdentifier_splitEquals:
  "plainIdentifier i \<Longrightarrow> splitEquals (stripDashes t) = (i, v) \<Longrightarrow> t \<noteq> ''--'' \<and> t \<noteq> ''-''"
  by (auto simp: plainIdentifier_def stripDashes_def splitEquals_def startsWith_def)

lemma parseOne_alias_head:
  assumes "aliasFor fs a n"
    and "startsWith t1 ''-''" and "startsWith t2 ''-''"
    and "splitEquals (stripDashes t1) = (a, v)" and "splitEquals (stripDashes t2) = (n, v)"
  shows "parseOne (fs\<lparr>processingArgs := t1 # q\<rparr>) = parseOne (fs\<lparr>processingArgs := t2 # q\<rparr>)"
proof -
  from assms(1) have pa: "plainIdentifier a" and pn: "plainIdentifier n"
    and ra: "resolveFlagName fs a = n" and rn: "resolveFlagName fs n = n"
    by (auto simp: aliasFor_def resolveFlagName_def plainIdentifier_def)
  from assms(1) obtain f where f: "Map_get (flags fs) n = Some f"
    by (auto simp: aliasFor_def Map_has_def Map_get_def)
  note n1 = plainIdentifier_splitEquals [OF pa assms(4)]
  note n2 = plainIdentifier_splitEquals [OF pn assms(5)]
  have "parseOne (fs\<lparr>processingArgs := t1 # q\<rparr>) = applyFlag n f v (fs\<lparr>processingArgs := q\<rparr>)"
    using pa n1 assms(2,4) ra f by (simp add: parseOne_def plainIdentifier_def)
  moreover have "parseOne (fs\<lparr>processingArgs := t2 # q\<rparr>) = applyFlag n f v (fs\<lparr>processingArgs := q\<rparr>)"
    using pn n2 assms(3,5) rn f by (simp add: parseOne_def plainIdentifier_def)
  ultimately show ?thesis
    by simp
qed

lemma parseOne_sameToken:
  assumes "aliasFor fs a n" and "sameToken a n t1 t2" and "list_all2 (sameToken a n) q1 q2"
    and "parseOne (fs\<lparr>processingArgs := t1 # q1\<rparr>) = (r, s)"
  shows "\<exists>q2'. parseOne (fs\<lparr>processingArgs := t2 # q2\<rparr>) = (r, s\<lparr>processingArgs := q2'\<rparr>) \<and>
               list_all2 (sameToken a n) (processingArgs s) q2'"
proof (cases "t1 = t2")
  case True
  with parseOne_same_head [OF assms(3,4)] show ?thesis
    by simp
next
  case False
  with assms(2) obtain v where "startsWith t1 ''-''" "startsWith t2 ''-''"
    "splitEquals (stripDashes t1) = (a, v)" "splitEquals (stripDashes t2) = (n, v)"
    by (cases "splitEquals (stripDashes t1)"; cases "splitEquals (stripDashes t2)")
       (auto simp: sameToken_def)
  from parseOne_alias_head [OF assms(1) this, of q1] assms(4)
  have "parseOne (fs\<lparr>processingArgs := t2 # q1\<rparr>) = (r, s)"
    by simp
  from parseOne_same_head [OF assms(3) this] show ?thesis .
qed


lemma Map_has_Map_set: "Map_has m n \<Longrightarrow> Map_has (Map_set m k v) n"
  by (induction m) (auto simp: Map_has_def)

lemma applyFlag_keeps_alias:
  "applyFlag k f v fs = (r, s) \<Longrightarrow>
   aliases s = aliases fs \<and> (Map_has (flags fs) n \<longrightarrow> Map_has (flags s) n)"
  by (auto simp: applyFlag_def Map_has_Map_set split: if_splits option.splits sum.splits list.splits)

lemma parseOne_keeps_alias:
  "parseOne fs = (r, s) \<Longrightarrow>
   aliases s = aliases fs \<and> (Map_has (flags fs) n \<longrightarrow> Map_has (flags s) n)"
  by (auto simp: parseOne_def Let_def split: list.splits if_splits prod.splits option.splits
      dest: applyFlag_keeps_alias [where n = n])

lemma parseOne_aliasFor:
  "parseOne fs = (r, s) \<Longrightarrow> aliasFor fs a n \<Longrightarrow> aliasFor s a n"
  using parseOne_keeps_alias [of fs r s n] by (simp add: aliasFor_def resolveFlagName_def)

lemma resetFlags_keys: "map fst (snd (resetFlags m)) = map fst m"
  by (induction m rule: resetFlags.induct) (auto split: sum.splits prod.splits)

lemma reset_aliasFor:
  assumes "(if isParsed fs then reset fs else (None, fs)) = (None, fs0)" and "aliasFor fs a n"
  shows "aliasFor fs0 a n"
proof (cases "isParsed fs")
  case False
  with assms show ?thesis by simp
next
  case True
  with assms(1) have al: "aliases fs0 = aliases fs" and fl: "flags fs0 = snd (resetFlags (flags fs))"
    by (auto simp: reset_def split: prod.splits option.splits)
  have "Map_has (flags fs0) n = Map_has (flags fs) n"
    using resetFlags_keys [of "flags fs"] fl
    by (metis Map_has_def map_of_eq_None_iff set_map)
  with al assms(2) show ?thesis
    by (simp add: aliasFor_def resolveFlagName_def)
qed

lemma parseLoop_sameToken:
  "aliasFor fs a n \<Longrightarrow> list_all2 (sameToken a n) (processingArgs fs) q2 \<Longrightarrow>
   clearQueue (parseLoop (fs\<lparr>processingArgs := q2\<rparr>)) = clearQueue (parseLoop fs)"
proof (induction fs arbitrary: q2 rule: parseLoop.induct)
  case (1 fs)
  show ?case
  proof (cases "processingArgs fs")
    case Nil
    with "1.prems"(2) have "q2 = processingArgs fs"
      by simp
    then show ?thesis
      by simp
  next
    case (Cons t1 q1)
    with "1.prems"(2) obtain t2 q2r where q2: "q2 = t2 # q2r" and tt: "sameToken a n t1 t2"
      and qq: "list_all2 (sameToken a n) q1 q2r"
      by (auto simp: list_all2_Cons1)
    have ne: "processingArgs fs \<noteq> []"
      using Cons by simp
    have self: "fs\<lparr>processingArgs := t1 # q1\<rparr> = fs"
      using Cons by simp
    obtain r s where one: "parseOne fs = (r, s)"
      by (cases "parseOne fs")
    from parseOne_sameToken [OF "1.prems"(1) tt qq, of r s] one self
    obtain q2' where one2: "parseOne (fs\<lparr>processingArgs := q2\<rparr>) = (r, s\<lparr>processingArgs := q2'\<rparr>)"
      and rel: "list_all2 (sameToken a n) (processingArgs s) q2'"
      using q2 by auto
    have ne2: "processingArgs (fs\<lparr>processingArgs := q2\<rparr>) \<noteq> []"
      using q2 by simp
    show ?thesis
    proof (cases r)
      case (Inl e)
      with one one2 ne ne2 show ?thesis
        by (simp add: parseLoop_error clearQueue_def)
    next
      case (Inr out)
      show ?thesis
      proof (cases "out = FLAG_CONSUMED_AND_PROCESSED")
        case True
        with Inr one have c: "parseOne fs = (Inr FLAG_CONSUMED_AND_PROCESSED, s)"
          by simp
        have "parseLoop (fs\<lparr>processingArgs := q2\<rparr>) = parseLoop (s\<lparr>processingArgs := q2'\<rparr>)"
          using one2 Inr True ne2 by (simp add: parseLoop_consumed)
        then have "clearQueue (parseLoop (fs\<lparr>processingArgs := q2\<rparr>))
                     = clearQueue (parseLoop (s\<lparr>processingArgs := q2'\<rparr>))"
          by simp
        also have "\<dots> = clearQueue (parseLoop s)"
          using "1.IH" [OF ne c [symmetric] refl refl parseOne_aliasFor [OF c "1.prems"(1)] rel] .
        also have "parseLoop s = parseLoop fs"
          using parseLoop_consumed [OF ne c] by simp
        finally show ?thesis .
      next
        case False
        with Inr one one2 ne ne2 show ?thesis
          by (simp add: parseLoop_stop clearQueue_def)
      qed
    qed
  qed
qed


lemma aliasFor_queue [simp]: "aliasFor (fs\<lparr>processingArgs := q\<rparr>) a n = aliasFor fs a n"
  by (simp add: aliasFor_def)


text \<open>
  C9, as stated: for every registry, the alias form and the long form of a flag give
  the same registry state. On the registry where \<open>h\<close> is the alias of \<open>verbose\<close>,
  \<open>parse ["-h"]\<close> raises the help signal and leaves \<open>verbose\<close> false, while
  \<open>parse ["--verbose"]\<close> succeeds and sets it.
\<close>

theorem alias_h_differs_from_long_name:
  "Map_get (aliases helpSet) ''h'' = Some ''verbose'' \<and>
   fst (parse (Some [''-h'']) helpSet) = Some HelpRequestError \<and>
   holderOf (snd (parse (Some [''-h'']) helpSet)) ''verbose'' = Some (BooleanValue False) \<and>
   fst (parse (Some [''--verbose'']) helpSet) = None \<and>
   holderOf (snd (parse (Some [''--verbose'']) helpSet)) ''verbose'' = Some (BooleanValue True)"
  by code_simp


lemma alias_agree_general:
  assumes "aliasFor fs a n" and "list_all2 (sameToken a n) argv1 argv2"
  shows "parse (Some argv1) fs = parse (Some argv2) fs"
proof (rule parse_cong_clearQueue)
  fix fs0
  assume "(if isParsed fs then reset fs else (None, fs)) = (None, fs0)"
  from reset_aliasFor [OF this assms(1)] have "aliasFor (fs0\<lparr>processingArgs := argv1\<rparr>) a n"
    by simp
  from parseLoop_sameToken [OF this, of argv2] assms(2)
  show "clearQueue (parseLoop (fs0\<lparr>processingArgs := argv1\<rparr>))
          = clearQueue (parseLoop (fs0\<lparr>processingArgs := argv2\<rparr>))"
    by simp
qed

lemma wellFormedAliases_new: "wellFormedAliases (newFlagSet prog provided)"
  by (simp add: wellFormedAliases_def newFlagSet_def)

lemma Map_set_fresh: "\<not> Map_has m k \<Longrightarrow> Map_set m k v = m @ [(k, v)]"
  by (induction m) (auto simp: Map_has_def)

lemma Map_has_Map_set_same: "Map_has (Map_set m k v) k"
  by (induction m) (auto simp: Map_has_def)

lemma Map_get_Map_set_other: "k' \<noteq> k \<Longrightarrow> Map_get (Map_set m k v) k' = Map_get m k'"
  by (induction m) (auto simp: Map_get_def)

lemma Map_get_Map_set_same: "Map_get (Map_set m k v) k = Some v"
  by (induction m) (auto simp: Map_get_def)

lemma newFlag_alias:
  "newFlag nm descr al holder = Inr f \<Longrightarrow> name f = nm \<and>
   (case alias_opt f of None \<Rightarrow> True | Some a \<Rightarrow> length a = 1 \<and> a \<noteq> ''-'' \<and> a \<noteq> ''='')"
  by (auto simp: newFlag_def Let_def split: if_splits option.splits)

lemma registerFlag_wellFormed:
  assumes wf: "wellFormedAliases fs"
    and al: "case alias_opt f of None \<Rightarrow> True | Some a \<Rightarrow> length a = 1 \<and> a \<noteq> ''-'' \<and> a \<noteq> ''=''"
    and reg: "registerFlag f fs = Inr fs'"
  shows "wellFormedAliases fs'"
proof (cases "alias_opt f")
  case None
  with reg have fs': "fs' = fs\<lparr>flags := Map_set (flags fs) (name f) f\<rparr>"
    by (auto simp: registerFlag_def split: if_splits)
  with wf show ?thesis
    by (auto simp: wellFormedAliases_def list_all_iff Map_has_Map_set resolveFlagName_def)
next
  case (Some a)
  with reg have fs': "fs' = fs\<lparr>aliases := Map_set (aliases fs) a (name f),
                                 flags := Map_set (flags fs) (name f) f\<rparr>"
    and fresh: "\<not> Map_has (flags fs) (name f)" "\<not> Map_has (aliases fs) (name f)"
      "\<not> Map_has (flags fs) a" "\<not> Map_has (aliases fs) a"
    by (auto simp: registerFlag_def split: if_splits)
  from Some al have a: "length a = 1" "a \<noteq> ''-''" "a \<noteq> ''=''"
    by simp_all
  have al': "aliases fs' = aliases fs @ [(a, name f)]"
    using fs' fresh(4) by (simp add: Map_set_fresh)
  have old: "\<And>x n. (x, n) \<in> set (aliases fs) \<Longrightarrow>
               length x = 1 \<and> x \<noteq> ''-'' \<and> x \<noteq> ''='' \<and> Map_has (flags fs') n \<and> resolveFlagName fs' n = n"
  proof -
    fix x n
    assume "(x, n) \<in> set (aliases fs)"
    with wf have p: "length x = 1" "x \<noteq> ''-''" "x \<noteq> ''=''" "Map_has (flags fs) n"
      "resolveFlagName fs n = n"
      by (auto simp: wellFormedAliases_def list_all_iff)
    from p(4) fresh(3) have "n \<noteq> a"
      by auto
    then have "Map_get (aliases fs') n = Map_get (aliases fs) n"
      using fs' by (simp add: Map_get_Map_set_other)
    with p(5) have "resolveFlagName fs' n = n"
      by (simp add: resolveFlagName_def)
    moreover have "Map_has (flags fs') n"
      using p(4) fs' by (simp add: Map_has_Map_set)
    ultimately show "length x = 1 \<and> x \<noteq> ''-'' \<and> x \<noteq> ''='' \<and> Map_has (flags fs') n \<and> resolveFlagName fs' n = n"
      using p by simp
  qed
  have new: "Map_has (flags fs') (name f) \<and> resolveFlagName fs' (name f) = name f"
  proof -
    have "Map_has (flags fs') (name f)"
      using fs' by (simp add: Map_has_Map_set_same)
    moreover have "resolveFlagName fs' (name f) = name f"
    proof (cases "name f = a")
      case True
      with fs' show ?thesis
        by (simp add: resolveFlagName_def Map_get_Map_set_same)
    next
      case False
      then have "Map_get (aliases fs') (name f) = Map_get (aliases fs) (name f)"
        using fs' by (simp add: Map_get_Map_set_other)
      with fresh(2) show ?thesis
        by (simp add: resolveFlagName_def Map_has_def Map_get_def)
    qed
    ultimately show ?thesis
      by simp
  qed
  show ?thesis
    unfolding wellFormedAliases_def list_all_iff al'
    using old new a by auto
qed

lemma declare_with_wellFormed:
  assumes "wellFormedAliases fs" and "declare_with nm descr al holder fs = Inr fs'"
  shows "wellFormedAliases fs'"
proof -
  from assms(2) obtain f where f: "newFlag nm descr al holder = Inr f" and r: "registerFlag f fs = Inr fs'"
    by (auto simp: declare_with_def split: sum.splits)
  from newFlag_alias [OF f] have "case alias_opt f of None \<Rightarrow> True
                                  | Some a \<Rightarrow> length a = 1 \<and> a \<noteq> ''-'' \<and> a \<noteq> ''=''"
    by simp
  from registerFlag_wellFormed [OF assms(1) this r] show ?thesis .
qed

lemma declarations_wellFormed:
  assumes "wellFormedAliases fs"
  shows "FlagSet_bool nm descr al db fs = Inr fs' \<Longrightarrow> wellFormedAliases fs'"
    and "FlagSet_string nm descr al ds fs = Inr fs' \<Longrightarrow> wellFormedAliases fs'"
    and "FlagSet_number nm descr al dn fs = Inr fs' \<Longrightarrow> wellFormedAliases fs'"
    and "FlagSet_stringList nm descr al dl fs = Inr fs' \<Longrightarrow> wellFormedAliases fs'"
  using declare_with_wellFormed [OF assms]
  by (simp_all add: FlagSet_bool_def FlagSet_string_def FlagSet_number_def FlagSet_stringList_def)

lemma wellFormedAliases_cong:
  assumes "wellFormedAliases fs" and "aliases s = aliases fs"
    and "\<And>n. Map_has (flags fs) n \<Longrightarrow> Map_has (flags s) n"
  shows "wellFormedAliases s"
  using assms by (auto simp: wellFormedAliases_def list_all_iff resolveFlagName_def)

lemma parseLoop_keeps_alias:
  "parseLoop fs = (r, s) \<Longrightarrow>
   aliases s = aliases fs \<and> (Map_has (flags fs) n \<longrightarrow> Map_has (flags s) n)"
proof (induction fs arbitrary: r s rule: parseLoop.induct)
  case (1 fs)
  show ?case
  proof (cases "processingArgs fs = []")
    case True
    with "1.prems" show ?thesis
      by (simp add: parseLoop.simps [of fs])
  next
    case False
    obtain r1 s1 where one: "parseOne fs = (r1, s1)"
      by (cases "parseOne fs")
    note k = parseOne_keeps_alias [OF one, of n]
    show ?thesis
    proof (cases r1)
      case (Inl e)
      with one False "1.prems" k show ?thesis
        by (auto simp: parseLoop.simps [of fs])
    next
      case (Inr out)
      show ?thesis
      proof (cases "out = FLAG_CONSUMED_AND_PROCESSED")
        case True
        with Inr one False "1.prems" have "parseLoop s1 = (r, s)"
          by (simp add: parseLoop.simps [of fs])
        from "1.IH" [OF False one [symmetric] Inr True this] k show ?thesis
          by simp
      next
        case nc: False
        with Inr one False "1.prems" k show ?thesis
          by (cases out) (auto simp: parseLoop.simps [of fs])
      qed
    qed
  qed
qed

lemma reset_keeps_alias:
  "reset fs = (r, s) \<Longrightarrow> aliases s = aliases fs \<and> Map_has (flags s) n = Map_has (flags fs) n"
proof -
  assume a: "reset fs = (r, s)"
  then have al: "aliases s = aliases fs" and fl: "flags s = snd (resetFlags (flags fs))"
    by (auto simp: reset_def split: prod.splits option.splits)
  have "Map_has (flags s) n = Map_has (flags fs) n"
    using resetFlags_keys [of "flags fs"] fl
    by (metis Map_has_def map_of_eq_None_iff set_map)
  with al show ?thesis
    by simp
qed

lemma parse_wellFormed:
  assumes "wellFormedAliases fs"
  shows "wellFormedAliases (snd (parse argv fs))"
proof -
  obtain r0 fs0 where st: "(if isParsed fs then reset fs else (None, fs)) = (r0, fs0)"
    by (cases "if isParsed fs then reset fs else (None, fs)")
  have k0: "aliases fs0 = aliases fs" "\<And>n. Map_has (flags fs) n \<Longrightarrow> Map_has (flags fs0) n"
    using st reset_keeps_alias [of fs r0 fs0] by (auto split: if_splits)
  have wf0: "wellFormedAliases fs0"
    by (rule wellFormedAliases_cong [OF assms k0])
  show ?thesis
  proof (cases r0)
    case (Some e)
    with st wf0 show ?thesis
      by (simp add: parse_def)
  next
    case None
    let ?q = "case argv of None \<Rightarrow> argProvider fs0 | Some a \<Rightarrow> a"
    obtain r1 s1 where l: "parseLoop (fs0\<lparr>processingArgs := ?q\<rparr>) = (r1, s1)"
      by (cases "parseLoop (fs0\<lparr>processingArgs := ?q\<rparr>)")
    have "wellFormedAliases (s1\<lparr>isParsed := True, processingArgs := []\<rparr>)"
    proof (rule wellFormedAliases_cong [OF wf0])
      show "aliases (s1\<lparr>isParsed := True, processingArgs := []\<rparr>) = aliases fs0"
        using parseLoop_keeps_alias [OF l] by simp
    next
      fix n
      assume "Map_has (flags fs0) n"
      then show "Map_has (flags (s1\<lparr>isParsed := True, processingArgs := []\<rparr>)) n"
        using parseLoop_keeps_alias [OF l, of n] by simp
    qed
    with st None l show ?thesis
      by (simp add: parse_def)
  qed
qed

lemma wellFormed_aliasFor:
  assumes "wellFormedAliases fs" and "Map_get (aliases fs) a = Some n"
    and "a \<noteq> ''h''" and "plainIdentifier n"
  shows "aliasFor fs a n"
proof -
  from assms(2) have "(a, n) \<in> set (aliases fs)"
    by (simp add: Map_get_def map_of_SomeD)
  with assms(1) have p: "length a = 1" "a \<noteq> ''-''" "a \<noteq> ''=''" "Map_has (flags fs) n"
    "resolveFlagName fs n = n"
    by (auto simp: wellFormedAliases_def list_all_iff)
  from p(1) obtain c where c: "a = [c]"
    by (cases a) auto
  with p(2,3) assms(3) have "plainIdentifier a"
    by (auto simp: plainIdentifier_def startsWith_def)
  with p assms show ?thesis
    by (simp add: aliasFor_def)
qed


text \<open>
  C9, amended: in a registry with a well-formed alias table (every registry built
  by the declaration methods), when \<open>a\<close> is an alias other than \<open>h\<close> of the flag
  named \<open>n\<close> and \<open>n\<close> is a plain identifier (not empty, not \<open>h\<close> or \<open>help\<close>, not
  starting with \<open>-\<close>, without \<open>=\<close>), two token sequences that differ only in that
  flag tokens with the identifier \<open>a\<close> in the one are flag tokens with the
  identifier \<open>n\<close> in the other, with the same inline values, give the same result
  of \<open>parse\<close> and the same registry.
\<close>

theorem alias_and_long_name_agree:
  assumes "wellFormedAliases fs"
    and "Map_get (aliases fs) a = Some n"
    and "a \<noteq> ''h''"
    and "plainIdentifier n"
    and "list_all2 (sameToken a n) argv1 argv2"
  shows "parse (Some argv1) fs = parse (Some argv2) fs"
  using alias_agree_general [OF wellFormed_aliasFor [OF assms(1-4)] assms(5)] .

theorem alias_and_long_name_agree_witness:
  "wellFormedAliases exampleSet \<and>
   Map_get (aliases exampleSet) ''c'' = Some ''config'' \<and>
   plainIdentifier ''config'' \<and>
   list_all2 (sameToken ''c'' ''config'')
     [''-v'', ''-c=x.json'', ''-c'', ''user.json''] [''-v'', ''--config=x.json'', ''-config'', ''user.json''] \<and>
   parse (Some [''-v'', ''-c=x.json'', ''-c'', ''user.json'']) exampleSet
     = parse (Some [''-v'', ''--config=x.json'', ''-config'', ''user.json'']) exampleSet \<and>
   holderOf (snd (parse (Some [''-v'', ''-c=x.json'', ''-c'', ''user.json'']) exampleSet)) ''config''
     = Some (StringValue ''user.json'')"
proof -
  have h1: "wellFormedAliases exampleSet"
    by code_simp
  have h2: "Map_get (aliases exampleSet) ''c'' = Some ''config''"
    by code_simp
  have h3: "''c'' \<noteq> ''h''"
    by simp
  have h4: "plainIdentifier ''config''"
    by code_simp
  have h5: "list_all2 (sameToken ''c'' ''config'')
     [''-v'', ''-c=x.json'', ''-c'', ''user.json''] [''-v'', ''--config=x.json'', ''-config'', ''user.json'']"
    by code_simp
  have v: "holderOf (snd (parse (Some [''-v'', ''-c=x.json'', ''-c'', ''user.json'']) exampleSet)) ''config''
     = Some (StringValue ''user.json'')"
    by code_simp
  show ?thesis
    using alias_and_long_name_agree [OF h1 h2 h3 h4 h5] h1 h2 h4 h5 v by simp
qed

section \<open>Numbers as values\<close>
























end
